theory Spec2Isabelle
  imports Main "HOL-Library.Finite_Map"
begin

section \<open>Recipient extraction: the regular expression of \<open>process_pay_stubs\<close>\<close>

text \<open>
  \<^verbatim>\<open>email_match = re.search(r'([\w\.-]+)@[domain]\.com', text)  # Replace [domain] with your domain\<close>

  A character is a code point below 256 (\<open>CHR 0xE9\<close> is U+00E9); text with other code
  points is outside the model. \<open>\w\<close> on a \<open>str\<close> pattern is Unicode aware: it
  matches the code points that are alphanumeric, and the underscore. On the code
  points below 256 these are the ASCII letters and digits, the underscore, and
  U+00AA, U+00B2, U+00B3, U+00B5, U+00B9, U+00BA, U+00BC to U+00BE, U+00C0 to U+00D6,
  U+00D8 to U+00F6 and U+00F8 to U+00FF.
\<close>

definition word_char :: "char \<Rightarrow> bool" where
  "word_char c \<longleftrightarrow>
     c \<in> set ''abcdefghijklmnopqrstuvwxyzABCDEFGHIJKLMNOPQRSTUVWXYZ0123456789_'' \<or>
     c \<in> set [CHR 0xAA, CHR 0xB2, CHR 0xB3, CHR 0xB5, CHR 0xB9, CHR 0xBA, CHR 0xBC, CHR 0xBD,
       CHR 0xBE,
       CHR 0xC0, CHR 0xC1, CHR 0xC2, CHR 0xC3, CHR 0xC4, CHR 0xC5, CHR 0xC6, CHR 0xC7,
       CHR 0xC8, CHR 0xC9, CHR 0xCA, CHR 0xCB, CHR 0xCC, CHR 0xCD, CHR 0xCE, CHR 0xCF,
       CHR 0xD0, CHR 0xD1, CHR 0xD2, CHR 0xD3, CHR 0xD4, CHR 0xD5, CHR 0xD6,
       CHR 0xD8, CHR 0xD9, CHR 0xDA, CHR 0xDB, CHR 0xDC, CHR 0xDD, CHR 0xDE, CHR 0xDF,
       CHR 0xE0, CHR 0xE1, CHR 0xE2, CHR 0xE3, CHR 0xE4, CHR 0xE5, CHR 0xE6, CHR 0xE7,
       CHR 0xE8, CHR 0xE9, CHR 0xEA, CHR 0xEB, CHR 0xEC, CHR 0xED, CHR 0xEE, CHR 0xEF,
       CHR 0xF0, CHR 0xF1, CHR 0xF2, CHR 0xF3, CHR 0xF4, CHR 0xF5, CHR 0xF6,
       CHR 0xF8, CHR 0xF9, CHR 0xFA, CHR 0xFB, CHR 0xFC, CHR 0xFD, CHR 0xFE, CHR 0xFF]"

text \<open>The class \<open>[\w\.-]\<close>.\<close>

definition local_char :: "char \<Rightarrow> bool" where
  "local_char c \<longleftrightarrow> word_char c \<or> c = CHR ''.'' \<or> c = CHR ''-''"

text \<open>After the group \<open>([\w\.-]+)\<close> the pattern is a sequence of items that match one
  character each: the literal \<open>@\<close>, the items that stand at the placeholder, and
  the four literals of \<open>\.com\<close>. An item is a literal character, a character class
  (the list of its members) or the dot, which matches every character but the line
  feed. The items at the placeholder are a parameter \<open>dm\<close> of the program.\<close>

datatype re_item = Lit char | Set "char list" | Dot

text \<open>As the source is shipped the placeholder is the text \<open>[domain]\<close>, a class of six
  characters. The text of a domain name put in its place (letters, digits, hyphens,
  dots) stands for itself, except that each of its dots is the dot of the pattern
  language.\<close>

definition shipped_items :: "re_item list" where
  "shipped_items = [Set ''domain'']"

definition domain_items :: "string \<Rightarrow> re_item list" where
  "domain_items d = map (\<lambda>c. if c = CHR ''.'' then Dot else Lit c) d"

fun item_ok :: "re_item \<Rightarrow> char \<Rightarrow> bool" where
  "item_ok (Lit a) c = (c = a)"
| "item_ok (Set cs) c = (c \<in> set cs)"
| "item_ok Dot c = (c \<noteq> CHR 0x0A)"

text \<open>Matching a sequence of one-character items at the head of the input; the
  result is the text they matched.\<close>

fun match_items :: "re_item list \<Rightarrow> string \<Rightarrow> string option" where
  "match_items [] s = Some []"
| "match_items (i # is) [] = None"
| "match_items (i # is) (c # s) =
     (if item_ok i c then map_option ((#) c) (match_items is s) else None)"

definition tail_items :: "re_item list \<Rightarrow> re_item list" where
  "tail_items dm = Lit CHR ''@'' # dm @ map Lit ''.com''"

text \<open>The group \<open>([\w\.-]+)\<close> at the head of the input, followed by the items \<open>rest\<close>.
  The quantifier is greedy: the engine first tries to take one more character, and
  gives characters back only when the rest of the pattern fails. The result is the
  captured group and the text matched after it.\<close>

fun match_plus :: "re_item list \<Rightarrow> string \<Rightarrow> (string \<times> string) option" where
  "match_plus rest [] = None"
| "match_plus rest (c # s) =
     (if local_char c then
        (case match_plus rest s of
           Some (g, t) \<Rightarrow> Some (c # g, t)
         | None \<Rightarrow> map_option (Pair [c]) (match_items rest s))
      else None)"

text \<open>\<open>re.search\<close>: the start positions are tried from left to right.\<close>

fun search :: "re_item list \<Rightarrow> string \<Rightarrow> (string \<times> string) option" where
  "search rest [] = None"
| "search rest (c # s) =
     (case match_plus rest (c # s) of Some r \<Rightarrow> Some r | None \<Rightarrow> search rest s)"

text \<open>The pair \<open>(email_match.group(0), email_match.group(1))\<close>, or \<open>None\<close>.\<close>

definition re_search :: "re_item list \<Rightarrow> string \<Rightarrow> (string \<times> string) option" where
  "re_search dm s =
     map_option (\<lambda>(g, t). (g @ t, g)) (search (tail_items dm) s)"

text \<open>An address under the items \<open>dm\<close>, in the words of the specification: one or
  more local-part characters, then \<open>@\<close>, then a text the items at the placeholder
  match, then \<open>.com\<close>.\<close>

definition is_address :: "re_item list \<Rightarrow> string \<Rightarrow> bool" where
  "is_address dm a \<longleftrightarrow>
     (let l = takeWhile (\<lambda>c. c \<noteq> CHR ''@'') a;
          t = take (length dm) (drop (length l + 1) a)
      in l \<noteq> [] \<and> list_all local_char l \<and> list_all2 item_ok dm t \<and>
         a = l @ ''@'' @ t @ ''.com'')"

section \<open>Paths and file names\<close>

text \<open>\<open>os.path\<close> is the POSIX flavour: the separator is \<open>/\<close>, the extension
  separator is \<open>.\<close>. A path is the string the program builds; two spellings are two
  paths.\<close>

definition basename :: "string \<Rightarrow> string" where
  "basename p = rev (takeWhile (\<lambda>c. c \<noteq> CHR ''/'') (rev p))"

definition dirname :: "string \<Rightarrow> string" where
  "dirname p =
     (let head = take (length p - length (basename p)) p
      in if head \<noteq> [] \<and> \<not> list_all (\<lambda>c. c = CHR ''/'') head
         then rev (dropWhile (\<lambda>c. c = CHR ''/'') (rev head))
         else head)"

definition join :: "string \<Rightarrow> string \<Rightarrow> string" where
  "join a b =
     (if take 1 b = ''/'' then b
      else if a = [] \<or> last a = CHR ''/'' then a @ b
      else a @ ''/'' @ b)"

text \<open>\<open>os.path.splitext\<close>: the extension starts at the last dot of the last
  component, unless only dots stand before it in that component.\<close>

definition splitext :: "string \<Rightarrow> string \<times> string" where
  "splitext p =
     (let name = basename p;
          e = rev (takeWhile (\<lambda>c. c \<noteq> CHR ''.'') (rev name));
          stem = take (length name - length e - 1) name
      in if CHR ''.'' \<in> set name \<and> \<not> list_all (\<lambda>c. c = CHR ''.'') stem
         then (take (length p - length e - 1) p, CHR ''.'' # e)
         else (p, []))"

text \<open>\<open>s.split(sep, 1)\<close> unpacked into two names: the text before and after the first
  occurrence of \<open>sep\<close>; \<open>None\<close> when there is none and the unpacking raises
  \<open>ValueError\<close>.\<close>

fun split_first :: "string \<Rightarrow> string \<Rightarrow> (string \<times> string) option" where
  "split_first sep [] = (if sep = [] then Some ([], []) else None)"
| "split_first sep (c # s) =
     (if take (length sep) (c # s) = sep then Some ([], drop (length sep) (c # s))
      else map_option (\<lambda>(a, b). (c # a, b)) (split_first sep s))"

text \<open>\<open>str(counter)\<close> inside the f-string: the decimal numeral.\<close>

definition digit_char :: "nat \<Rightarrow> char" where
  "digit_char n = ''0123456789'' ! n"

function str_nat :: "nat \<Rightarrow> string" where
  "str_nat n = (if n < 10 then [digit_char n] else str_nat (n div 10) @ [digit_char (n mod 10)])"
  by pat_completeness auto
termination str_nat
  by (relation "measure id") auto

declare str_nat.simps [simp del]

text \<open>\<open>period_end_date.replace('/', '-')\<close> of \<open>main\<close>.\<close>

definition replace_slash :: "string \<Rightarrow> string" where
  "replace_slash s = map (\<lambda>c. if c = CHR ''/'' then CHR ''-'' else c) s"

section \<open>The world: file system, mail transport, console, document handles\<close>

text \<open>A PDF is the list of its pages; a page has its text and its content. The
  file system maps a path to a file or a directory; the working directory is the
  empty path and is always a directory.\<close>

datatype 'c page = Page (text_of: string) (content_of: 'c)

datatype 'c node = File "'c page list" | Dir

type_synonym 'c filesystem = "(string, 'c node) fmap"

datatype smtp_failure = ConnectFailed | LoginFailed | SendFailed

datatype error =
    ValueError
  | FileNotFoundError
  | FileExistsError
  | NotADirectoryError
  | IsADirectoryError
  | DirectoryRename
  | FitzError
  | SMTPError smtp_failure

text \<open>An \<open>EmailMessage\<close>: its headers in the order they are set, the content given
  to \<open>set_content\<close>, and the attachments as (maintype, subtype, filename, data).\<close>

datatype 'c message =
  Message (headers: "(string \<times> string) list") (body_of: string)
    (attachments: "(string \<times> string \<times> string \<times> 'c page list) list")

datatype 'c smtp_event =
    SMTP_SSL string nat
  | Login string string
  | Send_message "'c message"
  | Quit

datatype log_line =
    Sent_pay_stub_to string
  | Failed_to_send string error
  | No_email_found nat

datatype doc_event = Doc_open string | Doc_close string

text \<open>The order in which a run does what the claims about timing speak of: a
  directory is created, the source document is opened, \<open>send_email\<close> is entered for
  an artifact, a transport session is opened.\<close>

datatype event =
    Made_dir string
  | Opened_source string
  | Dispatch_called string
  | Connected

text \<open>\<open>files\<close> is the file system, \<open>sessions\<close> the transport sessions opened so far
  (each with its commands), \<open>printed\<close> the lines printed, \<open>handles\<close> the opening and
  closing of the source document, \<open>timeline\<close> the events above in the order they
  happened.

  The last two fields are the \<open>email\<close> library, which is not the program's: what
  building the message raises, if anything, for a sender, a recipient and a body
  (\<open>msg['From'] = ...\<close> raises \<open>ValueError\<close> on a value with a line feed, for
  one), and what \<open>add_attachment\<close> raises for a file name. No call changes them.\<close>

record 'c world =
  files :: "'c filesystem"
  sessions :: "'c smtp_event list list"
  printed :: "log_line list"
  handles :: "doc_event list"
  timeline :: "event list"
  header_fault :: "string \<Rightarrow> string \<Rightarrow> string \<Rightarrow> error option"
  attachment_fault :: "string \<Rightarrow> error option"

text \<open>A call returns the exception it raised, if any, and the world it leaves.\<close>

type_synonym 'c outcome = "error option \<times> 'c world"

definition andthen :: "'c outcome \<Rightarrow> ('c world \<Rightarrow> 'c outcome) \<Rightarrow> 'c outcome" where
  "andthen r f = (case r of (Some e, w) \<Rightarrow> (Some e, w) | (None, w) \<Rightarrow> f w)"

subsection \<open>File system calls\<close>

definition path_exists :: "'c filesystem \<Rightarrow> string \<Rightarrow> bool" where
  "path_exists fs p \<longleftrightarrow> p \<noteq> [] \<and> fmlookup fs p \<noteq> None"

definition isdir :: "'c filesystem \<Rightarrow> string \<Rightarrow> bool" where
  "isdir fs d \<longleftrightarrow> d = [] \<or> fmlookup fs d = Some Dir"

text \<open>\<open>os.makedirs\<close> on a name of one component, as both call sites have it.\<close>

definition makedirs :: "'c filesystem \<Rightarrow> string \<Rightarrow> error + 'c filesystem" where
  "makedirs fs d =
     (if fmlookup fs d \<noteq> None then Inl FileExistsError else Inr (fmupd d Dir fs))"

text \<open>\<open>open(path, 'rb').read()\<close>.\<close>

definition read_file :: "'c filesystem \<Rightarrow> string \<Rightarrow> error + 'c page list" where
  "read_file fs p =
     (case fmlookup fs p of
        None \<Rightarrow> Inl FileNotFoundError
      | Some Dir \<Rightarrow> Inl IsADirectoryError
      | Some (File d) \<Rightarrow> Inr d)"

text \<open>\<open>os.rename\<close> with the POSIX semantics: an existing file at the destination is
  replaced. The destination's directory must exist and be a directory, and the
  destination must not be a directory. Renaming a directory is outside the model
  (the program only renames the artifact it has written) and is reported as
  \<open>DirectoryRename\<close>.\<close>

definition rename :: "'c filesystem \<Rightarrow> string \<Rightarrow> string \<Rightarrow> error + 'c filesystem" where
  "rename fs src dst =
     (case fmlookup fs src of
        None \<Rightarrow> Inl FileNotFoundError
      | Some Dir \<Rightarrow> Inl DirectoryRename
      | Some (File d) \<Rightarrow>
          if dst = [] then Inl FileNotFoundError
          else if \<not> isdir fs (dirname dst) then
            Inl (if path_exists fs (dirname dst) then NotADirectoryError else FileNotFoundError)
          else if fmlookup fs dst = Some Dir then Inl IsADirectoryError
          else Inr (fmupd dst (File d) (fmdrop src fs)))"

text \<open>\<open>stub_pdf.save(path)\<close>: MuPDF removes what is at the path (a file, or a
  directory that is empty) and writes the document there. It fails when a directory
  with entries is in the way or when the directory of the path is missing. Limits of
  the operating system (the length of a name, permissions) are outside the model.\<close>

definition has_entries :: "'c filesystem \<Rightarrow> string \<Rightarrow> bool" where
  "has_entries fs p \<longleftrightarrow> (\<exists>q\<in>fmdom' fs. take (length p + 1) q = p @ ''/'')"

definition save :: "'c filesystem \<Rightarrow> string \<Rightarrow> 'c page list \<Rightarrow> error + 'c filesystem" where
  "save fs p doc =
     (if p = [] \<or> \<not> isdir fs (dirname p) \<or> (fmlookup fs p = Some Dir \<and> has_entries fs p)
      then Inl FitzError
      else Inr (fmupd p (File doc) fs))"

text \<open>\<open>fitz.open(pdf_path)\<close>: the pages of the source document.\<close>

definition fitz_open :: "'c filesystem \<Rightarrow> string \<Rightarrow> error + 'c page list" where
  "fitz_open fs p =
     (case fmlookup fs p of Some (File d) \<Rightarrow> Inr d | _ \<Rightarrow> Inl FitzError)"

text \<open>The idiom \<open>if not os.path.exists(d): os.makedirs(d)\<close>.\<close>

definition ensure_dir :: "string \<Rightarrow> 'c world \<Rightarrow> 'c outcome" where
  "ensure_dir d w =
     (if \<not> path_exists (files w) d then
        (case makedirs (files w) d of
           Inl e \<Rightarrow> (Some e, w)
         | Inr fs \<Rightarrow> (None, w\<lparr>files := fs, timeline := timeline w @ [Made_dir d]\<rparr>))
      else (None, w))"

section \<open>The program\<close>

subsection \<open>\<open>move_to_sent_folder\<close>\<close>

text \<open>The \<open>while os.path.exists(sent_file_path)\<close> loop: its state is \<open>counter\<close> and
  \<open>sent_file_path\<close>, its result the path it leaves with.\<close>

function find_sent_file_path ::
  "'c filesystem \<Rightarrow> string \<Rightarrow> string \<Rightarrow> string \<Rightarrow> nat \<Rightarrow> string \<Rightarrow> string" where
  "find_sent_file_path fs date_part name_part ext counter sent_file_path =
     (if path_exists fs sent_file_path
      then find_sent_file_path fs date_part name_part ext (counter + 1)
             (join ''Sent'' (date_part @ '' - '' @ name_part @ '' - '' @ str_nat counter @ ext))
      else sent_file_path)"
  by pat_completeness auto

text \<open>The loop ends because the file system is finite and the names it tries are
  pairwise different (the decimal numeral determines the number). \<open>untried\<close> counts
  the names from \<open>counter\<close> on that exist: the measure that decreases.\<close>

definition untried :: "'c filesystem \<Rightarrow> string \<Rightarrow> string \<Rightarrow> string \<Rightarrow> nat \<Rightarrow> nat" where
  "untried fs date_part name_part ext counter =
     card {n. counter \<le> n \<and>
        path_exists fs
          (join ''Sent'' (date_part @ '' - '' @ name_part @ '' - '' @ str_nat n @ ext))}"

lemma str_nat_not_Nil: "str_nat n \<noteq> []"
  by (subst str_nat.simps) simp

lemma digit_char_eq_iff: "a < 10 \<Longrightarrow> b < 10 \<Longrightarrow> digit_char a = digit_char b \<longleftrightarrow> a = b"
  unfolding digit_char_def by (rule nth_eq_iff_index_eq) simp_all

lemma str_nat_eq_iff: "str_nat n = str_nat m \<longleftrightarrow> n = m"
proof (induction n arbitrary: m rule: str_nat.induct)
  case (1 n)
  show ?case
  proof (cases "n < 10")
    case n: True
    show ?thesis
    proof (cases "m < 10")
      case True
      with n show ?thesis
        by (subst (1 2) str_nat.simps) (simp add: digit_char_eq_iff)
    next
      case False
      with n show ?thesis
        using str_nat_not_Nil [of "m div 10"] by (subst (1 2) str_nat.simps) auto
    qed
  next
    case n: False
    show ?thesis
    proof (cases "m < 10")
      case True
      with n show ?thesis
        using str_nat_not_Nil [of "n div 10"] by (subst (1 2) str_nat.simps) auto
    next
      case False
      have "str_nat n = str_nat m \<longleftrightarrow> n div 10 = m div 10 \<and> n mod 10 = m mod 10"
        using n False "1.IH" [OF n, of "m div 10"]
        by (subst (1 2) str_nat.simps) (simp add: digit_char_eq_iff)
      also have "\<dots> \<longleftrightarrow> n = m"
        by (metis div_mult_mod_eq)
      finally show ?thesis .
    qed
  qed
qed

lemma join_append: "pre \<noteq> [] \<Longrightarrow> join a (pre @ x) = join a pre @ x"
  by (cases pre) (simp_all add: join_def)

lemma finite_candidates:
  "finite {n. path_exists fs (join a (d @ '' - '' @ r @ '' - '' @ str_nat n @ e))}"
proof -
  let ?c = "\<lambda>n. join a (d @ '' - '' @ r @ '' - '' @ str_nat n @ e)"
  have c: "?c n = join a (d @ '' - '' @ r @ '' - '') @ str_nat n @ e" for n
    using join_append [of "d @ '' - '' @ r @ '' - ''" a "str_nat n @ e"] by simp
  have "inj ?c"
  proof (rule injI)
    fix x y
    assume "?c x = ?c y"
    then have "join a (d @ '' - '' @ r @ '' - '') @ str_nat x @ e =
               join a (d @ '' - '' @ r @ '' - '') @ str_nat y @ e"
      unfolding c .
    then show "x = y" by (simp add: str_nat_eq_iff)
  qed
  then have "finite (?c -` fmdom' fs)"
    by (rule finite_vimageI [rotated]) simp
  moreover have "{n. path_exists fs (?c n)} \<subseteq> ?c -` fmdom' fs"
    by (auto simp: path_exists_def fmlookup_dom'_iff)
  ultimately show ?thesis by (rule rev_finite_subset)
qed

lemma untried_step:
  "path_exists fs (join ''Sent'' (d @ '' - '' @ r @ '' - '' @ str_nat k @ e)) \<Longrightarrow>
     untried fs d r e (Suc k) < untried fs d r e k"
  "\<not> path_exists fs (join ''Sent'' (d @ '' - '' @ r @ '' - '' @ str_nat k @ e)) \<Longrightarrow>
     untried fs d r e (Suc k) = untried fs d r e k"
proof -
  let ?P = "\<lambda>n. path_exists fs (join ''Sent'' (d @ '' - '' @ r @ '' - '' @ str_nat n @ e))"
  have fin: "finite {n. k \<le> n \<and> ?P n}"
    by (rule rev_finite_subset [OF finite_candidates [of fs "''Sent''" d r e]]) auto
  {
    assume "?P k"
    then have "k \<in> {n. k \<le> n \<and> ?P n}" "k \<notin> {n. Suc k \<le> n \<and> ?P n}"
      "{n. Suc k \<le> n \<and> ?P n} \<subseteq> {n. k \<le> n \<and> ?P n}"
      by auto
    then have "{n. Suc k \<le> n \<and> ?P n} \<subset> {n. k \<le> n \<and> ?P n}" by blast
    from psubset_card_mono [OF fin this]
    show "untried fs d r e (Suc k) < untried fs d r e k"
      by (simp add: untried_def)
  }
  {
    assume "\<not> ?P k"
    then have "{n. Suc k \<le> n \<and> ?P n} = {n. k \<le> n \<and> ?P n}"
      by (auto simp: Suc_le_eq le_eq_less_or_eq)
    then show "untried fs d r e (Suc k) = untried fs d r e k"
      by (simp add: untried_def)
  }
qed

termination find_sent_file_path
proof (relation "measure (\<lambda>(fs, date_part, name_part, ext, counter, sent_file_path).
        2 * untried fs date_part name_part ext counter
        + (if path_exists fs sent_file_path then 1 else 0))", goal_cases)
  case 1
  show ?case by simp
next
  case (2 fs date_part name_part ext counter sent_file_path)
  show ?case
  proof (cases "path_exists fs
      (join ''Sent'' (date_part @ '' - '' @ name_part @ '' - '' @ str_nat counter @ ext))")
    case True
    from untried_step(1) [OF True] 2 True show ?thesis by simp
  next
    case False
    from untried_step(2) [OF False] 2 False show ?thesis by simp
  qed
qed

declare find_sent_file_path.simps [simp del]

text \<open>\<open>move_to_sent_folder(pay_stub_path)\<close>.\<close>

definition move_to_sent_folder :: "string \<Rightarrow> 'c world \<Rightarrow> 'c outcome" where
  "move_to_sent_folder pay_stub_path w =
     (let original_name = basename pay_stub_path;
          (base, ext) = splitext original_name
      in case split_first '' - '' base of
           None \<Rightarrow> (Some ValueError, w)
         | Some (date_part, name_part) \<Rightarrow>
             (let sent_file_path =
                    find_sent_file_path (files w) date_part name_part ext 1
                      (join ''Sent'' original_name)
              in case rename (files w) pay_stub_path sent_file_path of
                   Inl e \<Rightarrow> (Some e, w)
                 | Inr fs \<Rightarrow> (None, w\<lparr>files := fs\<rparr>)))"

subsection \<open>\<open>move_to_failed_send_folder\<close>\<close>

definition move_to_failed_send_folder :: "string \<Rightarrow> 'c world \<Rightarrow> 'c outcome" where
  "move_to_failed_send_folder output_pdf_path w =
     (case rename (files w) output_pdf_path (join ''Failed to Send'' output_pdf_path) of
        Inl e \<Rightarrow> (Some e, w)
      | Inr fs \<Rightarrow> (None, w\<lparr>files := fs\<rparr>))"

subsection \<open>\<open>send_email\<close>\<close>

text \<open>The \<open>with smtplib.SMTP_SSL('smtp.gmail.com', 465) as server\<close> block. What the
  server does is the environment's: \<open>net k\<close> is the fate of the session opened when
  \<open>k\<close> sessions have been opened before, \<open>None\<close> when the message is accepted. A
  session that was connected is left with \<open>QUIT\<close>, also by an exception.\<close>

definition smtp_send ::
  "(nat \<Rightarrow> smtp_failure option) \<Rightarrow> string \<Rightarrow> string \<Rightarrow> 'c message \<Rightarrow> 'c world \<Rightarrow> 'c outcome" where
  "smtp_send net sender_email sender_password msg w =
     (case net (length (sessions w)) of
        Some ConnectFailed \<Rightarrow>
          (Some (SMTPError ConnectFailed),
           w\<lparr>sessions := sessions w @ [[SMTP_SSL ''smtp.gmail.com'' 465]],
             timeline := timeline w @ [Connected]\<rparr>)
      | Some LoginFailed \<Rightarrow>
          (Some (SMTPError LoginFailed),
           w\<lparr>sessions := sessions w @
              [[SMTP_SSL ''smtp.gmail.com'' 465, Login sender_email sender_password, Quit]],
             timeline := timeline w @ [Connected]\<rparr>)
      | Some SendFailed \<Rightarrow>
          (Some (SMTPError SendFailed),
           w\<lparr>sessions := sessions w @
              [[SMTP_SSL ''smtp.gmail.com'' 465, Login sender_email sender_password,
                Send_message msg, Quit]],
             timeline := timeline w @ [Connected]\<rparr>)
      | None \<Rightarrow>
          (None,
           w\<lparr>sessions := sessions w @
              [[SMTP_SSL ''smtp.gmail.com'' 465, Login sender_email sender_password,
                Send_message msg, Quit]],
             timeline := timeline w @ [Connected]\<rparr>))"

text \<open>\<open>send_email(sender_email, sender_password, receiver_email, pay_stub_path, body='')\<close>;
  the optional argument is \<open>None\<close> when the caller leaves it out. The directory is
  seen to first; then the message is built (the library may refuse the values),
  the file is read and attached (the library may refuse its name), the session is
  run, and the artifact is moved.\<close>

definition send_email ::
  "(nat \<Rightarrow> smtp_failure option) \<Rightarrow> string \<Rightarrow> string \<Rightarrow> string \<Rightarrow> string \<Rightarrow> string option \<Rightarrow>
     'c world \<Rightarrow> 'c outcome" where
  "send_email net sender_email sender_password receiver_email pay_stub_path body w =
     andthen (ensure_dir ''Sent'' (w\<lparr>timeline := timeline w @ [Dispatch_called pay_stub_path]\<rparr>))
       (\<lambda>w.
         case header_fault w sender_email receiver_email (case body of None \<Rightarrow> [] | Some b \<Rightarrow> b) of
           Some e \<Rightarrow> (Some e, w)
         | None \<Rightarrow>
             (case read_file (files w) pay_stub_path of
                Inl e \<Rightarrow> (Some e, w)
              | Inr file_data \<Rightarrow>
                  (case attachment_fault w (basename pay_stub_path) of
                     Some e \<Rightarrow> (Some e, w)
                   | None \<Rightarrow>
                       (let msg = Message
                              [(''Subject'', ''Pay Stub''), (''From'', sender_email),
                               (''To'', receiver_email)]
                              (case body of None \<Rightarrow> [] | Some b \<Rightarrow> b)
                              [(''application'', ''pdf'', basename pay_stub_path, file_data)]
                        in andthen (smtp_send net sender_email sender_password msg w)
                             (move_to_sent_folder pay_stub_path)))))"

subsection \<open>\<open>process_pay_stubs\<close>\<close>

text \<open>The body of the \<open>for page_num in range(len(doc))\<close> loop.\<close>

definition process_page ::
  "re_item list \<Rightarrow> (nat \<Rightarrow> smtp_failure option) \<Rightarrow> string \<Rightarrow> string \<Rightarrow> string \<Rightarrow> string \<Rightarrow>
     nat \<Rightarrow> 'c page \<Rightarrow> 'c world \<Rightarrow> 'c outcome" where
  "process_page dm net period_end_date sender_email sender_password email_body page_num page w =
     (case re_search dm (text_of page) of
        Some (email, email_identifier) \<Rightarrow>
          (let output_pdf_path = period_end_date @ '' - '' @ email_identifier @ ''.pdf''
           in case save (files w) output_pdf_path [page] of
                Inl e \<Rightarrow> (Some e, w)
              | Inr fs \<Rightarrow>
                  (case send_email net sender_email sender_password email output_pdf_path
                          (Some email_body) (w\<lparr>files := fs\<rparr>) of
                     (None, w') \<Rightarrow> (None, w'\<lparr>printed := printed w' @ [Sent_pay_stub_to email]\<rparr>)
                   | (Some e, w') \<Rightarrow>
                       move_to_failed_send_folder output_pdf_path
                         (w'\<lparr>printed := printed w' @ [Failed_to_send email e]\<rparr>)))
      | None \<Rightarrow> (None, w\<lparr>printed := printed w @ [No_email_found (page_num + 1)]\<rparr>))"

text \<open>The loop over the pages; an exception that leaves the body leaves the loop.\<close>

fun page_loop ::
  "re_item list \<Rightarrow> (nat \<Rightarrow> smtp_failure option) \<Rightarrow> string \<Rightarrow> string \<Rightarrow> string \<Rightarrow> string \<Rightarrow>
     nat \<Rightarrow> 'c page list \<Rightarrow> 'c world \<Rightarrow> 'c outcome" where
  "page_loop dm net period_end_date sender_email sender_password email_body page_num [] w =
     (None, w)"
| "page_loop dm net period_end_date sender_email sender_password email_body page_num
     (page # pages) w =
     andthen
       (process_page dm net period_end_date sender_email sender_password email_body page_num page w)
       (page_loop dm net period_end_date sender_email sender_password email_body (page_num + 1)
          pages)"

definition process_pay_stubs ::
  "re_item list \<Rightarrow> (nat \<Rightarrow> smtp_failure option) \<Rightarrow> string \<Rightarrow> string \<Rightarrow> string \<Rightarrow> string \<Rightarrow>
     string \<Rightarrow> 'c world \<Rightarrow> 'c outcome" where
  "process_pay_stubs dm net pdf_path period_end_date sender_email sender_password email_body w =
     andthen (ensure_dir ''Failed to Send'' w) (\<lambda>w.
       case fitz_open (files w) pdf_path of
         Inl e \<Rightarrow> (Some e, w)
       | Inr doc \<Rightarrow>
           andthen
             (page_loop dm net period_end_date sender_email sender_password email_body 0 doc
                (w\<lparr>handles := handles w @ [Doc_open pdf_path],
                   timeline := timeline w @ [Opened_source pdf_path]\<rparr>))
             (\<lambda>w. (None, w\<lparr>handles := handles w @ [Doc_close pdf_path]\<rparr>)))"

section \<open>Example worlds\<close>

text \<open>A world with the given files in which nothing has happened yet and the
  \<open>email\<close> library refuses nothing.\<close>

definition world_of :: "nat filesystem \<Rightarrow> nat world" where
  "world_of fs =
     \<lparr>files = fs, sessions = [], printed = [], handles = [], timeline = [],
      header_fault = (\<lambda>sender receiver body. None), attachment_fault = (\<lambda>name. None)\<rparr>"

text \<open>A \<open>Sent\<close> directory that already holds two stubs of the same name, and a third
  one waiting in the working directory.\<close>

definition sent_twice :: "nat world" where
  "sent_twice =
     world_of
       (fmupd ''2024-01-15 - alice.pdf'' (File [Page ''alice@acme.com'' 3])
          (fmupd ''Sent/2024-01-15 - alice - 1.pdf'' (File [Page ''alice@acme.com'' 2])
            (fmupd ''Sent/2024-01-15 - alice.pdf'' (File [Page ''alice@acme.com'' 1])
              (fmupd ''Sent'' Dir fmempty))))"

text \<open>A \<open>Failed to Send\<close> directory that already holds a stub of the name of the one
  waiting in the working directory.\<close>

definition failed_twice :: "nat world" where
  "failed_twice =
     world_of
       (fmupd ''01-15-2024 - bob.pdf'' (File [Page ''bob@acme.com'' 2])
          (fmupd ''Failed to Send/01-15-2024 - bob.pdf'' (File [Page ''bob@acme.com'' 1])
            (fmupd ''Failed to Send'' Dir fmempty)))"

text \<open>A source document of two stubs in an otherwise empty working directory.\<close>

definition two_stubs :: "nat world" where
  "two_stubs =
     world_of
       (fmupd ''stubs.pdf''
          (File [Page ''Pay stub for a@acme.com'' 1, Page ''Pay stub for b@acme.com'' 2])
          fmempty)"

text \<open>A source document whose only page names no recipient.\<close>

definition no_stub :: "nat world" where
  "no_stub =
     world_of (fmupd ''stubs.pdf'' (File [Page ''nothing here'' 1]) fmempty)"

text \<open>The two stubs with \<open>Failed to Send\<close> in place; and the same with a regular file
  in the place of the directory \<open>Sent\<close>.\<close>

definition ready :: "nat world" where
  "ready =
     world_of
       (fmupd ''Failed to Send'' Dir
          (fmupd ''stubs.pdf''
             (File [Page ''Pay stub for a@acme.com'' 1, Page ''Pay stub for b@acme.com'' 2])
             fmempty))"

definition sent_is_file :: "nat world" where
  "sent_is_file =
     world_of
       (fmupd ''Sent'' (File [])
          (fmupd ''Failed to Send'' Dir
             (fmupd ''stubs.pdf''
                (File [Page ''Pay stub for a@acme.com'' 1, Page ''Pay stub for b@acme.com'' 2])
                fmempty)))"

text \<open>An artifact in a folder of the working directory.\<close>

definition in_folder :: "nat world" where
  "in_folder =
     world_of
       (fmupd ''out/01-15-2024 - bob.pdf'' (File [Page ''bob@acme.com'' 2])
          (fmupd ''out'' Dir fmempty))"

text \<open>An artifact in a world whose \<open>email\<close> library does what the library of the
  distribution does with a line feed in an address header: it raises \<open>ValueError\<close>.\<close>

definition strict_headers :: "nat world" where
  "strict_headers =
     (world_of (fmupd ''01-15-2024 - bob.pdf'' (File [Page ''bob@acme.com'' 2]) fmempty))
       \<lparr>header_fault := (\<lambda>sender receiver body.
          if CHR 0x0A \<in> set sender \<or> CHR 0x0A \<in> set receiver then Some ValueError else None)\<rparr>"

text \<open>The two stubs with a regular file in the place of the directory
  \<open>Failed to Send\<close>; and a source document whose two pages name the same recipient,
  with \<open>Failed to Send\<close> in place.\<close>

definition failed_is_file :: "nat world" where
  "failed_is_file =
     world_of
       (fmupd ''Failed to Send'' (File [])
          (fmupd ''stubs.pdf''
             (File [Page ''Pay stub for a@acme.com'' 1, Page ''Pay stub for b@acme.com'' 2])
             fmempty))"

definition same_recipient :: "nat world" where
  "same_recipient =
     world_of
       (fmupd ''Failed to Send'' Dir
          (fmupd ''stubs.pdf''
             (File [Page ''Pay stub for a@acme.com'' 1, Page ''Bonus for a@acme.com'' 2])
             fmempty))"

section \<open>Evaluation\<close>

lemmas regex_defs =
  re_search_def tail_items_def local_char_def word_char_def shipped_items_def domain_items_def

lemmas path_defs = basename_def dirname_def join_def splitext_def Let_def

lemmas run_defs =
  process_pay_stubs_def process_page_def send_email_def smtp_send_def
  move_to_sent_folder_def move_to_failed_send_folder_def find_sent_file_path.simps
  andthen_def ensure_dir_def path_exists_def isdir_def makedirs_def read_file_def
  rename_def save_def has_entries_def fitz_open_def str_nat.simps digit_char_def world_of_def


section \<open>The search returns the first address\<close>

lemma at_not_local: "\<not> local_char CHR ''@''"
  by (simp add: local_char_def word_char_def)

lemma match_items_iff:
  "match_items its s = Some t \<longleftrightarrow>
     t = take (length its) s \<and> length its \<le> length s \<and> list_all2 item_ok its t"
proof (induction its arbitrary: s t)
  case Nil
  then show ?case by auto
next
  case (Cons i its)
  show ?case
  proof (cases s)
    case Nil
    then show ?thesis by simp
  next
    case (Cons c s')
    show ?thesis
    proof (cases t)
      case Nil
      with Cons show ?thesis by auto
    next
      case (Cons c' t')
      with \<open>s = c # s'\<close> Cons.IH [of s' t'] show ?thesis by auto
    qed
  qed
qed

lemma match_items_at_local:
  "local_char b \<Longrightarrow> match_items (Lit CHR ''@'' # is) (b # s) = None"
  using at_not_local by auto

lemma match_plus_at:
  "match_plus (Lit CHR ''@'' # its) s =
     (if takeWhile local_char s \<noteq> []
      then map_option (Pair (takeWhile local_char s))
             (match_items (Lit CHR ''@'' # its) (dropWhile local_char s))
      else None)"
proof (induction s)
  case Nil
  then show ?case by simp
next
  case (Cons c s)
  show ?case
  proof (cases "local_char c")
    case False
    then show ?thesis by simp
  next
    case True
    show ?thesis
    proof (cases s)
      case Nil
      with True show ?thesis by simp
    next
      case (Cons b s')
      show ?thesis
      proof (cases "local_char b")
        case lb: True
        then have n: "match_items (Lit CHR ''@'' # its) (b # s') = None"
          by (rule match_items_at_local)
        show ?thesis
        proof (cases "match_items (Lit CHR ''@'' # its) (dropWhile local_char s')")
          case None
          with lb True Cons.IH Cons n show ?thesis
            by (simp del: match_items.simps)
        next
          case (Some t)
          with lb True Cons.IH Cons n show ?thesis
            by (simp del: match_items.simps)
        qed
      next
        case lb: False
        with True Cons.IH Cons show ?thesis
          by (cases "match_items (Lit CHR ''@'' # its) (b # s')") (simp_all del: match_items.simps)
      qed
    qed
  qed
qed

lemma list_all2_Lit: "list_all2 item_ok (map Lit p) v \<longleftrightarrow> v = p"
proof (induction p arbitrary: v)
  case Nil
  then show ?case by simp
next
  case (Cons a p)
  then show ?case by (cases v) auto
qed

lemma list_all2_tail_items:
  "list_all2 item_ok (tail_items dm) t \<longleftrightarrow>
     (\<exists>u. t = ''@'' @ u @ ''.com'' \<and> list_all2 item_ok dm u)"
proof
  assume "list_all2 item_ok (tail_items dm) t"
  then obtain c r where t: "t = c # r" "item_ok (Lit CHR ''@'') c"
    "list_all2 item_ok (dm @ map Lit ''.com'') r"
    unfolding tail_items_def by (auto simp: list_all2_Cons1)
  from t(3) obtain u v where "r = u @ v" "list_all2 item_ok dm u"
    "list_all2 item_ok (map Lit ''.com'') v"
    by (auto simp: list_all2_append1)
  with t(1,2) show "\<exists>u. t = ''@'' @ u @ ''.com'' \<and> list_all2 item_ok dm u"
    unfolding list_all2_Lit by auto
next
  assume "\<exists>u. t = ''@'' @ u @ ''.com'' \<and> list_all2 item_ok dm u"
  then obtain u where u: "t = CHR ''@'' # u @ ''.com''" "list_all2 item_ok dm u" by auto
  have "list_all2 item_ok (map Lit ''.com'') ''.com''" unfolding list_all2_Lit ..
  with u(2) have "list_all2 item_ok (dm @ map Lit ''.com'') (u @ ''.com'')"
    by (rule list_all2_appendI)
  then show "list_all2 item_ok (tail_items dm) t"
    unfolding tail_items_def u(1) by simp
qed

lemma search_None:
  "search rest s = None \<Longrightarrow> s = pre @ x \<Longrightarrow> match_plus rest x = None"
proof (induction s arbitrary: pre)
  case Nil
  then show ?case by simp
next
  case (Cons c s)
  show ?case
  proof (cases pre)
    case Nil
    with Cons.prems show ?thesis by (auto split: option.splits)
  next
    case (Cons p pre')
    with Cons.prems Cons.IH [of pre'] show ?thesis by (auto split: option.splits)
  qed
qed

lemma search_Some:
  "search rest s = Some r \<Longrightarrow>
     \<exists>pre x. s = pre @ x \<and> match_plus rest x = Some r \<and>
       (\<forall>pre' x'. s = pre' @ x' \<and> length pre' < length pre \<longrightarrow> match_plus rest x' = None)"
proof (induction s)
  case Nil
  then show ?case by simp
next
  case (Cons c s)
  show ?case
  proof (cases "match_plus rest (c # s)")
    case (Some r')
    with Cons.prems have "match_plus rest (c # s) = Some r" by simp
    then have "c # s = [] @ (c # s) \<and> match_plus rest (c # s) = Some r \<and>
       (\<forall>pre' x'. c # s = pre' @ x' \<and> length pre' < length ([]::string) \<longrightarrow> match_plus rest x' = None)"
      by simp
    then show ?thesis by blast
  next
    case None
    with Cons.prems have "search rest s = Some r" by simp
    from Cons.IH [OF this] obtain pre x where
      px: "s = pre @ x" "match_plus rest x = Some r"
      "\<forall>pre' x'. s = pre' @ x' \<and> length pre' < length pre \<longrightarrow> match_plus rest x' = None"
      by blast
    have "\<forall>pre' x'. c # s = pre' @ x' \<and> length pre' < length (c # pre) \<longrightarrow> match_plus rest x' = None"
    proof (intro allI impI)
      fix pre' x'
      assume a: "c # s = pre' @ x' \<and> length pre' < length (c # pre)"
      show "match_plus rest x' = None"
      proof (cases pre')
        case Nil
        with a None show ?thesis by simp
      next
        case (Cons p q)
        with a have "s = q @ x'" "length q < length pre" by auto
        with px(3) show ?thesis by blast
      qed
    qed
    with px(1,2) have "c # s = (c # pre) @ x \<and> match_plus rest x = Some r \<and>
      (\<forall>pre' x'. c # s = pre' @ x' \<and> length pre' < length (c # pre) \<longrightarrow> match_plus rest x' = None)"
      by simp
    then show ?thesis by blast
  qed
qed


lemma takeWhile_local_at:
  "list_all local_char l \<Longrightarrow> takeWhile local_char (l @ CHR ''@'' # r) = l"
  "list_all local_char l \<Longrightarrow> dropWhile local_char (l @ CHR ''@'' # r) = CHR ''@'' # r"
  "list_all local_char l \<Longrightarrow> takeWhile (\<lambda>c. c \<noteq> CHR ''@'') (l @ CHR ''@'' # r) = l"
  using at_not_local by (induction l) auto

lemma is_address_iff:
  "is_address dm a \<longleftrightarrow>
     (\<exists>l u. l \<noteq> [] \<and> list_all local_char l \<and> list_all2 item_ok dm u \<and>
        a = l @ ''@'' @ u @ ''.com'')"
proof
  assume "is_address dm a"
  then show "\<exists>l u. l \<noteq> [] \<and> list_all local_char l \<and> list_all2 item_ok dm u \<and>
        a = l @ ''@'' @ u @ ''.com''"
    unfolding is_address_def Let_def by blast
next
  assume "\<exists>l u. l \<noteq> [] \<and> list_all local_char l \<and> list_all2 item_ok dm u \<and>
        a = l @ ''@'' @ u @ ''.com''"
  then obtain l u where l: "l \<noteq> []" "list_all local_char l" "list_all2 item_ok dm u"
    and a: "a = l @ CHR ''@'' # (u @ ''.com'')"
    by auto
  have t: "takeWhile (\<lambda>c. c \<noteq> CHR ''@'') a = l"
    unfolding a using l(2) by (rule takeWhile_local_at(3))
  have len: "length u = length dm" using l(3) by (simp add: list_all2_lengthD)
  have u: "take (length dm) (drop (length l + 1) a) = u"
    unfolding a using len by simp
  show "is_address dm a"
    unfolding is_address_def Let_def t u using l a by simp
qed

lemma match_plus_address:
  "match_plus (tail_items dm) x = Some (g, t) \<longleftrightarrow>
     g \<noteq> [] \<and> list_all local_char g \<and>
     (\<exists>u. t = ''@'' @ u @ ''.com'' \<and> list_all2 item_ok dm u) \<and> (\<exists>r. x = g @ t @ r)"
proof -
  let ?its = "dm @ map Lit ''.com''"
  have eq: "tail_items dm = Lit CHR ''@'' # ?its"
    by (simp add: tail_items_def)
  show ?thesis
  proof
    assume "match_plus (tail_items dm) x = Some (g, t)"
    then have m: "takeWhile local_char x \<noteq> []" "g = takeWhile local_char x"
      "match_items (tail_items dm) (dropWhile local_char x) = Some t"
      unfolding eq match_plus_at by (auto split: if_splits)
    from m(3) have t: "t = take (length (tail_items dm)) (dropWhile local_char x)"
      "list_all2 item_ok (tail_items dm) t"
      unfolding match_items_iff by auto
    have lg: "list_all local_char g"
      unfolding m(2) list_all_iff by (auto dest: set_takeWhileD)
    have "x = g @ t @ drop (length (tail_items dm)) (dropWhile local_char x)"
      unfolding m(2) t(1) by simp
    then have ex: "\<exists>r. x = g @ t @ r" by (rule exI)
    have gn: "g \<noteq> []" using m(1,2) by simp
    have eu: "\<exists>u. t = ''@'' @ u @ ''.com'' \<and> list_all2 item_ok dm u"
      using t(2) unfolding list_all2_tail_items .
    from gn lg eu ex show "g \<noteq> [] \<and> list_all local_char g \<and>
       (\<exists>u. t = ''@'' @ u @ ''.com'' \<and> list_all2 item_ok dm u) \<and> (\<exists>r. x = g @ t @ r)"
      by (intro conjI)
  next
    assume a: "g \<noteq> [] \<and> list_all local_char g \<and>
       (\<exists>u. t = ''@'' @ u @ ''.com'' \<and> list_all2 item_ok dm u) \<and> (\<exists>r. x = g @ t @ r)"
    then obtain u r where u: "t = CHR ''@'' # (u @ ''.com'')" "list_all2 item_ok dm u"
      and x: "x = g @ t @ r"
      by auto
    have la: "list_all2 item_ok (tail_items dm) t"
      unfolding list_all2_tail_items using u by auto
    then have len: "length (tail_items dm) = length t" by (rule list_all2_lengthD)
    have x': "x = g @ CHR ''@'' # (u @ ''.com'' @ r)" unfolding x u(1) by simp
    have tw: "takeWhile local_char x = g" "dropWhile local_char x = t @ r"
      unfolding x' u(1) using a by (simp_all add: takeWhile_local_at)
    have "match_items (tail_items dm) (t @ r) = Some t"
      unfolding match_items_iff using la len by simp
    then show "match_plus (tail_items dm) x = Some (g, t)"
      using a tw unfolding eq match_plus_at
      by (simp del: match_items.simps)
  qed
qed


text \<open>For a placeholder replaced by a domain name with no dot in it, the items are
  literal, and an address is a run of local-part characters, \<open>@\<close>, the name, \<open>.com\<close>.\<close>

lemma is_address_literal:
  "is_address (map Lit d) a \<longleftrightarrow>
     (\<exists>l. l \<noteq> [] \<and> list_all local_char l \<and> a = l @ ''@'' @ d @ ''.com'')"
  unfolding is_address_iff list_all2_Lit by auto

lemma domain_items_literal: "CHR ''.'' \<notin> set d \<Longrightarrow> domain_items d = map Lit d"
  by (induction d) (auto simp: domain_items_def)

text \<open>
  Claim C1 (amended). For every page text and every text put at the placeholder of the
  pattern, the search returns the first substring of the page text that consists of one
  or more local-part characters (word characters, dot, hyphen), then \<open>@\<close>, then a text
  matching the pattern fragment at the placeholder, then \<open>.com\<close>: when the page text
  has no such substring the search returns \<open>None\<close>; otherwise the address returned is
  such a substring, none starts before it, one starting where it starts is the address
  itself, the identifier is the text captured before \<open>@\<close> (the local part), and the
  identifier is not empty.
\<close>

theorem re_search_first_match:
  "(case re_search dm s of
      None \<Rightarrow> (\<forall>pre a post. s = pre @ a @ post \<longrightarrow> \<not> is_address dm a)
    | Some (address, identifier) \<Rightarrow>
        identifier \<noteq> [] \<and> list_all local_char identifier \<and>
        (\<exists>u. address = identifier @ ''@'' @ u @ ''.com'' \<and> list_all2 item_ok dm u) \<and>
        identifier = takeWhile (\<lambda>c. c \<noteq> CHR ''@'') address \<and>
        is_address dm address \<and>
        (\<exists>pre post. s = pre @ address @ post \<and>
           (\<forall>pre' a post'. s = pre' @ a @ post' \<and> is_address dm a \<longrightarrow>
              length pre \<le> length pre' \<and> (length pre' = length pre \<longrightarrow> a = address))))"
proof (cases "search (tail_items dm) s")
  case None
  have "\<not> is_address dm a" if "s = pre @ a @ post" for pre a post
  proof
    assume "is_address dm a"
    then obtain l u where l: "l \<noteq> []" "list_all local_char l" "list_all2 item_ok dm u"
      "a = l @ ''@'' @ u @ ''.com''"
      unfolding is_address_iff by blast
    then have "match_plus (tail_items dm) (a @ post) = Some (l, ''@'' @ u @ ''.com'')"
      unfolding match_plus_address by auto
    moreover have "match_plus (tail_items dm) (a @ post) = None"
      using search_None [OF None that] .
    ultimately show False by simp
  qed
  with None show ?thesis
    by (simp add: re_search_def)
next
  case (Some r)
  obtain g t where r: "r = (g, t)" by (cases r)
  from search_Some [OF Some] obtain pre x where
    px: "s = pre @ x" "match_plus (tail_items dm) x = Some (g, t)"
    "\<forall>pre' x'. s = pre' @ x' \<and> length pre' < length pre \<longrightarrow>
        match_plus (tail_items dm) x' = None"
    unfolding r by blast
  from px(2) obtain u post where
    g: "g \<noteq> []" "list_all local_char g" "t = ''@'' @ u @ ''.com''" "list_all2 item_ok dm u"
      "x = g @ t @ post"
    unfolding match_plus_address by blast
  have addr: "is_address dm (g @ t)"
    unfolding is_address_iff using g(1-4) by blast
  have eu: "\<exists>u. g @ t = g @ ''@'' @ u @ ''.com'' \<and> list_all2 item_ok dm u"
    using g(3,4) by blast
  have ident: "g = takeWhile (\<lambda>c. c \<noteq> CHR ''@'') (g @ t)"
    using g(2) by (simp add: g(3) takeWhile_local_at)
  have first: "length pre \<le> length pre' \<and> (length pre' = length pre \<longrightarrow> a = g @ t)"
    if sa: "s = pre' @ a @ post'" and ia: "is_address dm a" for pre' a post'
  proof -
    from ia obtain l v where l: "l \<noteq> []" "list_all local_char l" "list_all2 item_ok dm v"
      "a = l @ ''@'' @ v @ ''.com''"
      unfolding is_address_iff by blast
    then have ma: "match_plus (tail_items dm) (a @ post') = Some (l, ''@'' @ v @ ''.com'')"
      unfolding match_plus_address by auto
    have le: "length pre \<le> length pre'"
    proof (rule ccontr)
      assume "\<not> length pre \<le> length pre'"
      with px(3) [rule_format, of pre' "a @ post'"] sa
      have "match_plus (tail_items dm) (a @ post') = None"
        by simp
      with ma show False by simp
    qed
    have "a = g @ t" if "length pre' = length pre"
    proof -
      from that sa px(1) have "x = a @ post'" by simp
      with ma px(2) have "l = g" "''@'' @ v @ ''.com'' = t" by simp_all
      with l(4) show ?thesis by simp
    qed
    with le show ?thesis by blast
  qed
  have "s = pre @ (g @ t) @ post" using px(1) g(5) by simp
  with first have "\<exists>pre post. s = pre @ (g @ t) @ post \<and>
           (\<forall>pre' a post'. s = pre' @ a @ post' \<and> is_address dm a \<longrightarrow>
              length pre \<le> length pre' \<and> (length pre' = length pre \<longrightarrow> a = g @ t))"
    by blast
  with Some r g(1,2) eu addr ident show ?thesis
    by (simp add: re_search_def)
qed

theorem re_search_first_match_witness:
  "re_search (domain_items ''mail.acme'')
      ''Pay to: bob.smith@mail.acme.com (cc x@mail.acme.com)'' =
      Some (''bob.smith@mail.acme.com'', ''bob.smith'') \<and>
   is_address (domain_items ''mail.acme'') ''bob.smith@mail.acme.com'' \<and>
   (\<exists>pre post. ''Pay to: bob.smith@mail.acme.com (cc x@mail.acme.com)'' =
        pre @ ''bob.smith@mail.acme.com'' @ post \<and>
      (\<forall>pre' a post'. ''Pay to: bob.smith@mail.acme.com (cc x@mail.acme.com)'' = pre' @ a @ post' \<and>
          is_address (domain_items ''mail.acme'') a \<longrightarrow> length pre \<le> length pre'))"
proof -
  have e: "re_search (domain_items ''mail.acme'')
      ''Pay to: bob.smith@mail.acme.com (cc x@mail.acme.com)'' =
      Some (''bob.smith@mail.acme.com'', ''bob.smith'')"
    by (simp add: regex_defs)
  from re_search_first_match
    [where dm = "domain_items ''mail.acme''"
       and s = "''Pay to: bob.smith@mail.acme.com (cc x@mail.acme.com)''"]
  show ?thesis unfolding e by simp blast
qed

text \<open>
  Claim C1 as stated, with the literal configured domain, fails for the pattern as
  shipped: the placeholder \<open>[domain]\<close> is a class of one character, so a page text
  holding \<open>bob@domain.com\<close> has an address under the literal domain \<open>domain\<close> and the
  search returns \<open>None\<close>, while \<open>bob@d.com\<close> is found.
\<close>

theorem shipped_pattern_misses_literal_domain:
  "is_address (map Lit ''domain'') ''bob@domain.com'' \<and>
   re_search shipped_items ''To: bob@domain.com'' = None \<and>
   re_search shipped_items ''To: bob@d.com'' = Some (''bob@d.com'', ''bob'')"
  by (simp add: regex_defs is_address_def)

text \<open>After the replacement the source's comment asks for, a dot of the domain name
  is the pattern's any-character item.\<close>

lemma dot_of_a_domain_name_matches_any_character:
  "re_search (domain_items ''mail.acme'') ''To: x@mailXacme.com'' =
     Some (''x@mailXacme.com'', ''x'')"
  by (simp add: regex_defs)

text \<open>A word character is any letter or digit, not only an ASCII one.\<close>

lemma word_characters_beyond_ascii:
  "re_search (map Lit ''acme'') (''To: ren'' @ CHR 0xE9 # ''e@acme.com'') =
     Some (''ren'' @ CHR 0xE9 # ''e@acme.com'', ''ren'' @ CHR 0xE9 # ''e'')"
  by (simp add: regex_defs)


section \<open>Filing into \<open>Sent\<close>\<close>

lemma basename_no_slash: "CHR ''/'' \<notin> set (basename p)"
  unfolding basename_def by (auto dest: set_takeWhileD)

lemma takeWhile_rev_no_slash:
  "CHR ''/'' \<notin> set x \<Longrightarrow> takeWhile (\<lambda>c. c \<noteq> CHR ''/'') (rev x @ CHR ''/'' # y) = rev x"
  "CHR ''/'' \<notin> set x \<Longrightarrow> takeWhile (\<lambda>c. c \<noteq> CHR ''/'') (rev x) = rev x"
  by (induction x rule: rev_induct) auto

lemma basename_id: "CHR ''/'' \<notin> set x \<Longrightarrow> basename x = x"
  unfolding basename_def by (simp add: takeWhile_rev_no_slash)

lemma basename_in_dir: "CHR ''/'' \<notin> set x \<Longrightarrow> basename (d @ ''/'' @ x) = x"
  unfolding basename_def by (simp add: takeWhile_rev_no_slash)

lemma join_name: "CHR ''/'' \<notin> set x \<Longrightarrow> d \<noteq> [] \<Longrightarrow> last d \<noteq> CHR ''/'' \<Longrightarrow> join d x = d @ ''/'' @ x"
  unfolding join_def by (cases x) auto

lemma dirname_in_dir:
  assumes "CHR ''/'' \<notin> set x" "d \<noteq> []" "last d \<noteq> CHR ''/''"
  shows "dirname (d @ ''/'' @ x) = d"
proof -
  have b: "basename (d @ ''/'' @ x) = x" using assms(1) by (rule basename_in_dir)
  have h: "take (length (d @ ''/'' @ x) - length x) (d @ ''/'' @ x) = d @ ''/''" by simp
  have "last d \<in> set d" using assms(2) by simp
  with assms(3) have n: "\<not> list_all (\<lambda>c. c = CHR ''/'') (d @ ''/'')"
    by (auto simp: list_all_iff)
  have r: "rev (dropWhile (\<lambda>c. c = CHR ''/'') (rev (d @ ''/''))) = d"
    using assms(2,3) by (cases "rev d") auto
  show ?thesis
    unfolding dirname_def b h Let_def using n r by simp
qed


lemma split_first_Some: "split_first sep s = Some (a, b) \<Longrightarrow> s = a @ sep @ b"
proof (induction s arbitrary: a)
  case Nil
  then show ?case by (auto split: if_splits)
next
  case (Cons c s)
  show ?case
  proof (cases "take (length sep) (c # s) = sep")
    case True
    with Cons.prems have "a = []" "b = drop (length sep) (c # s)" by auto
    with True show ?thesis
      using append_take_drop_id [of "length sep" "c # s"] by simp
  next
    case False
    with Cons.prems obtain a' where "split_first sep s = Some (a', b)" "a = c # a'"
      by auto
    with Cons.IH show ?thesis by simp
  qed
qed

lemma splitext_name:
  assumes "CHR ''/'' \<notin> set x" "splitext x = (b, e)"
  shows "x = b @ e"
proof (cases "CHR ''.'' \<in> set x \<and>
    \<not> list_all (\<lambda>c. c = CHR ''.'')
      (take (length x - length (rev (takeWhile (\<lambda>c. c \<noteq> CHR ''.'') (rev x))) - 1) x)")
  case False
  with assms show ?thesis
    by (auto simp: splitext_def basename_id Let_def)
next
  case True
  let ?t = "takeWhile (\<lambda>c. c \<noteq> CHR ''.'') (rev x)"
  let ?d = "dropWhile (\<lambda>c. c \<noteq> CHR ''.'') (rev x)"
  from True assms have be: "b = take (length x - length ?t - 1) x" "e = CHR ''.'' # rev ?t"
    by (auto simp: splitext_def basename_id Let_def)
  from True have "?d \<noteq> []" by (simp add: dropWhile_eq_Nil_conv)
  then obtain u where d: "?d = CHR ''.'' # u"
    using hd_dropWhile [of "\<lambda>c. c \<noteq> CHR ''.''" "rev x"] by (cases ?d) auto
  have "rev x = ?t @ CHR ''.'' # u"
    using takeWhile_dropWhile_id [of "\<lambda>c. c \<noteq> CHR ''.''" "rev x"] d by simp
  then have "rev (rev x) = rev (?t @ CHR ''.'' # u)" by simp
  then have x: "x = rev u @ CHR ''.'' # rev ?t" by simp
  have "length x = length u + 1 + length ?t"
    by (subst x) simp
  then have "take (length x - length ?t - 1) x = rev u"
    by (subst (2) x) simp
  with be x show ?thesis by simp
qed

lemma digit_char_no_slash: "n < 10 \<Longrightarrow> digit_char n \<noteq> CHR ''/''"
proof -
  assume "n < 10"
  then have "digit_char n \<in> set ''0123456789''"
    unfolding digit_char_def by (intro nth_mem) simp
  then show ?thesis by auto
qed

lemma str_nat_no_slash: "CHR ''/'' \<notin> set (str_nat n)"
proof (induction n rule: str_nat.induct)
  case (1 n)
  show ?case
  proof (cases "n < 10")
    case True
    then show ?thesis
      using digit_char_no_slash [of n] by (subst str_nat.simps) auto
  next
    case False
    with 1 show ?thesis
      using digit_char_no_slash [of "n mod 10"] by (subst str_nat.simps) auto
  qed
qed


lemma find_sent_file_path_free:
  "\<not> path_exists fs p \<Longrightarrow> find_sent_file_path fs d r e c p = p"
  by (subst find_sent_file_path.simps) simp

lemma find_sent_file_path_taken:
  "path_exists fs p \<Longrightarrow>
     \<exists>n\<ge>c. find_sent_file_path fs d r e c p =
              join ''Sent'' (d @ '' - '' @ r @ '' - '' @ str_nat n @ e) \<and>
           \<not> path_exists fs (join ''Sent'' (d @ '' - '' @ r @ '' - '' @ str_nat n @ e)) \<and>
           (\<forall>m. c \<le> m \<and> m < n \<longrightarrow>
              path_exists fs (join ''Sent'' (d @ '' - '' @ r @ '' - '' @ str_nat m @ e)))"
proof (induction fs d r e c p rule: find_sent_file_path.induct)
  case (1 fs d r e c p)
  let ?cand = "\<lambda>n. join ''Sent'' (d @ '' - '' @ r @ '' - '' @ str_nat n @ e)"
  have step: "find_sent_file_path fs d r e c p = find_sent_file_path fs d r e (c + 1) (?cand c)"
    using "1.prems" by (subst find_sent_file_path.simps) simp
  show ?case
  proof (cases "path_exists fs (?cand c)")
    case False
    then have "find_sent_file_path fs d r e c p = ?cand c"
      unfolding step by (rule find_sent_file_path_free)
    with False have "c \<le> c \<and> find_sent_file_path fs d r e c p = ?cand c \<and>
        \<not> path_exists fs (?cand c) \<and> (\<forall>m. c \<le> m \<and> m < c \<longrightarrow> path_exists fs (?cand m))"
      by auto
    then show ?thesis by blast
  next
    case True
    from "1.IH" [OF "1.prems" True] obtain n where n: "c + 1 \<le> n"
      "find_sent_file_path fs d r e (c + 1) (?cand c) = ?cand n"
      "\<not> path_exists fs (?cand n)"
      "\<forall>m. c + 1 \<le> m \<and> m < n \<longrightarrow> path_exists fs (?cand m)"
      by blast
    have "path_exists fs (?cand m)" if "c \<le> m" "m < n" for m
    proof (cases "m = c")
      case True
      with \<open>path_exists fs (?cand c)\<close> show ?thesis by simp
    next
      case False
      with that n(4) show ?thesis by simp
    qed
    with n have "c \<le> n \<and> find_sent_file_path fs d r e c p = ?cand n \<and>
        \<not> path_exists fs (?cand n) \<and> (\<forall>m. c \<le> m \<and> m < n \<longrightarrow> path_exists fs (?cand m))"
      unfolding step by simp
    then show ?thesis by blast
  qed
qed

lemma rename_into_dir:
  assumes "fmlookup fs src = Some (File data)" "fmlookup fs d = Some Dir"
    "d \<noteq> []" "last d \<noteq> CHR ''/''" "CHR ''/'' \<notin> set x"
    "fmlookup fs (d @ ''/'' @ x) \<noteq> Some Dir"
  shows "rename fs src (d @ ''/'' @ x) = Inr (fmupd (d @ ''/'' @ x) (File data) (fmdrop src fs))"
  using assms dirname_in_dir [of x d]
  by (simp add: rename_def isdir_def)


text \<open>
  Claim C2. An artifact is filed into \<open>Sent\<close>; the program parses its base name as
  \<open>date_part - name_part\<close> followed by \<open>ext\<close>. When no entry of the unmodified name
  exists in \<open>Sent\<close>, the artifact is moved there under that name. When one exists, the
  final name is \<open>date_part - name_part - n\<close> followed by \<open>ext\<close> for the smallest
  \<open>n \<ge> 1\<close> whose name is unused in \<open>Sent\<close>. The name chosen is unused, so every
  entry the file system had, other than the artifact itself, is still there unchanged:
  nothing is overwritten.
\<close>

theorem move_to_sent_folder_unique_name:
  assumes parse: "splitext (basename p) = (base, ext)"
      "split_first '' - '' base = Some (date_part, name_part)"
    and src: "fmlookup (files w) p = Some (File data)"
    and sent: "fmlookup (files w) ''Sent'' = Some Dir"
  shows "basename p = date_part @ '' - '' @ name_part @ ext \<and>
     (\<exists>target.
        move_to_sent_folder p w =
          (None, w\<lparr>files := fmupd target (File data) (fmdrop p (files w))\<rparr>) \<and>
        \<not> path_exists (files w) target \<and>
        (if \<not> path_exists (files w) (''Sent/'' @ basename p)
         then target = ''Sent/'' @ basename p
         else \<exists>n\<ge>1.
                target = ''Sent/'' @ date_part @ '' - '' @ name_part @ '' - '' @ str_nat n @ ext \<and>
                (\<forall>m. 1 \<le> m \<and> m < n \<longrightarrow>
                   path_exists (files w)
                     (''Sent/'' @ date_part @ '' - '' @ name_part @ '' - '' @ str_nat m @ ext))) \<and>
        (\<forall>q x. q \<noteq> p \<and> fmlookup (files w) q = Some x \<longrightarrow>
           fmlookup (fmupd target (File data) (fmdrop p (files w))) q = Some x))"
proof -
  let ?fs = "files w"
  let ?nm = "basename p"
  let ?cand = "\<lambda>n. date_part @ '' - '' @ name_part @ '' - '' @ str_nat n @ ext"
  have ns: "CHR ''/'' \<notin> set ?nm" by (rule basename_no_slash)
  have nm: "?nm = base @ ext" using splitext_name [OF ns parse(1)] .
  have base: "base = date_part @ '' - '' @ name_part" using split_first_Some [OF parse(2)] .
  have form: "?nm = date_part @ '' - '' @ name_part @ ext" using nm base by simp
  have nsc: "CHR ''/'' \<notin> set (?cand n)" for n
    using ns str_nat_no_slash [of n] unfolding form by auto
  have j0: "join ''Sent'' ?nm = ''Sent/'' @ ?nm"
    using join_name [OF ns, of "''Sent''"] by simp
  have jc: "join ''Sent'' (?cand n) = ''Sent/'' @ ?cand n" for n
    using join_name [OF nsc, of "''Sent''" n] by simp
  have mv: "move_to_sent_folder p w =
      (case rename ?fs p (find_sent_file_path ?fs date_part name_part ext 1 (''Sent/'' @ ?nm)) of
         Inl e \<Rightarrow> (Some e, w) | Inr fs \<Rightarrow> (None, w\<lparr>files := fs\<rparr>))"
    using parse by (simp add: move_to_sent_folder_def Let_def j0)
  have ren: "rename ?fs p (''Sent/'' @ x) = Inr (fmupd (''Sent/'' @ x) (File data) (fmdrop p ?fs))"
    if "CHR ''/'' \<notin> set x" "\<not> path_exists ?fs (''Sent/'' @ x)" for x
    using rename_into_dir [OF src sent _ _ that(1)] that(2)
    by (simp add: path_exists_def)
  have keep: "fmlookup (fmupd (''Sent/'' @ t) (File data) (fmdrop p ?fs)) q = Some x"
    if "\<not> path_exists ?fs (''Sent/'' @ t)" "q \<noteq> p" "fmlookup ?fs q = Some x" for t q x
    using that by (auto simp: path_exists_def)
  show ?thesis
  proof (cases "path_exists ?fs (''Sent/'' @ ?nm)")
    case False
    let ?t = "''Sent/'' @ ?nm"
    have "find_sent_file_path ?fs date_part name_part ext 1 ?t = ?t"
      using False by (rule find_sent_file_path_free)
    with mv ren [OF ns False] have a:
      "move_to_sent_folder p w = (None, w\<lparr>files := fmupd ?t (File data) (fmdrop p ?fs)\<rparr>)"
      by simp
    have c: "if \<not> path_exists ?fs (''Sent/'' @ ?nm) then ?t = ''Sent/'' @ ?nm
         else \<exists>n\<ge>1.
                ?t = ''Sent/'' @ date_part @ '' - '' @ name_part @ '' - '' @ str_nat n @ ext \<and>
                (\<forall>m. 1 \<le> m \<and> m < n \<longrightarrow>
                   path_exists ?fs
                     (''Sent/'' @ date_part @ '' - '' @ name_part @ '' - '' @ str_nat m @ ext))"
      using False by simp
    have d: "\<forall>q x. q \<noteq> p \<and> fmlookup ?fs q = Some x \<longrightarrow>
           fmlookup (fmupd ?t (File data) (fmdrop p ?fs)) q = Some x"
      using keep [OF False] by blast
    from a False c d have "\<exists>target.
        move_to_sent_folder p w =
          (None, w\<lparr>files := fmupd target (File data) (fmdrop p ?fs)\<rparr>) \<and>
        \<not> path_exists ?fs target \<and>
        (if \<not> path_exists ?fs (''Sent/'' @ ?nm)
         then target = ''Sent/'' @ ?nm
         else \<exists>n\<ge>1.
                target = ''Sent/'' @ date_part @ '' - '' @ name_part @ '' - '' @ str_nat n @ ext \<and>
                (\<forall>m. 1 \<le> m \<and> m < n \<longrightarrow>
                   path_exists ?fs
                     (''Sent/'' @ date_part @ '' - '' @ name_part @ '' - '' @ str_nat m @ ext))) \<and>
        (\<forall>q x. q \<noteq> p \<and> fmlookup ?fs q = Some x \<longrightarrow>
           fmlookup (fmupd target (File data) (fmdrop p ?fs)) q = Some x)"
      by (intro exI [of _ ?t] conjI)
    with form show ?thesis by (rule conjI)
  next
    case True
    from find_sent_file_path_taken [OF True, of 1 date_part name_part ext]
    obtain n where n: "1 \<le> n"
      "find_sent_file_path ?fs date_part name_part ext 1 (''Sent/'' @ ?nm) = ''Sent/'' @ ?cand n"
      "\<not> path_exists ?fs (''Sent/'' @ ?cand n)"
      "\<forall>m. 1 \<le> m \<and> m < n \<longrightarrow> path_exists ?fs (''Sent/'' @ ?cand m)"
      unfolding jc by blast
    let ?t = "''Sent/'' @ ?cand n"
    from mv ren [OF nsc n(3)] n(2) have a:
      "move_to_sent_folder p w = (None, w\<lparr>files := fmupd ?t (File data) (fmdrop p ?fs)\<rparr>)"
      by simp
    have "\<exists>k\<ge>1.
                ?t = ''Sent/'' @ date_part @ '' - '' @ name_part @ '' - '' @ str_nat k @ ext \<and>
                (\<forall>m. 1 \<le> m \<and> m < k \<longrightarrow>
                   path_exists ?fs
                     (''Sent/'' @ date_part @ '' - '' @ name_part @ '' - '' @ str_nat m @ ext))"
      using n(1,4) by (intro exI [of _ n]) simp
    with True have c: "if \<not> path_exists ?fs (''Sent/'' @ ?nm) then ?t = ''Sent/'' @ ?nm
         else \<exists>n\<ge>1.
                ?t = ''Sent/'' @ date_part @ '' - '' @ name_part @ '' - '' @ str_nat n @ ext \<and>
                (\<forall>m. 1 \<le> m \<and> m < n \<longrightarrow>
                   path_exists ?fs
                     (''Sent/'' @ date_part @ '' - '' @ name_part @ '' - '' @ str_nat m @ ext))"
      by simp
    have d: "\<forall>q x. q \<noteq> p \<and> fmlookup ?fs q = Some x \<longrightarrow>
           fmlookup (fmupd ?t (File data) (fmdrop p ?fs)) q = Some x"
      using keep [OF n(3)] by blast
    from a n(3) c d have "\<exists>target.
        move_to_sent_folder p w =
          (None, w\<lparr>files := fmupd target (File data) (fmdrop p ?fs)\<rparr>) \<and>
        \<not> path_exists ?fs target \<and>
        (if \<not> path_exists ?fs (''Sent/'' @ ?nm)
         then target = ''Sent/'' @ ?nm
         else \<exists>n\<ge>1.
                target = ''Sent/'' @ date_part @ '' - '' @ name_part @ '' - '' @ str_nat n @ ext \<and>
                (\<forall>m. 1 \<le> m \<and> m < n \<longrightarrow>
                   path_exists ?fs
                     (''Sent/'' @ date_part @ '' - '' @ name_part @ '' - '' @ str_nat m @ ext))) \<and>
        (\<forall>q x. q \<noteq> p \<and> fmlookup ?fs q = Some x \<longrightarrow>
           fmlookup (fmupd target (File data) (fmdrop p ?fs)) q = Some x)"
      by (intro exI [of _ ?t] conjI)
    with form show ?thesis by (rule conjI)
  qed
qed

theorem move_to_sent_folder_unique_name_witness:
  "splitext (basename ''2024-01-15 - alice.pdf'') = (''2024-01-15 - alice'', ''.pdf'') \<and>
   split_first '' - '' ''2024-01-15 - alice'' = Some (''2024-01-15'', ''alice'') \<and>
   fmlookup (files sent_twice) ''2024-01-15 - alice.pdf'' = Some (File [Page ''alice@acme.com'' 3]) \<and>
   fmlookup (files sent_twice) ''Sent'' = Some Dir \<and>
   (\<exists>target.
      move_to_sent_folder ''2024-01-15 - alice.pdf'' sent_twice =
        (None, sent_twice\<lparr>files := fmupd target (File [Page ''alice@acme.com'' 3])
           (fmdrop ''2024-01-15 - alice.pdf'' (files sent_twice))\<rparr>) \<and>
      \<not> path_exists (files sent_twice) target) \<and>
   fmlookup (files (snd (move_to_sent_folder ''2024-01-15 - alice.pdf'' sent_twice)))
     ''Sent/2024-01-15 - alice - 2.pdf'' = Some (File [Page ''alice@acme.com'' 3])"
proof -
  have h1: "splitext (basename ''2024-01-15 - alice.pdf'') = (''2024-01-15 - alice'', ''.pdf'')"
    by (simp add: path_defs)
  have h2: "split_first '' - '' ''2024-01-15 - alice'' = Some (''2024-01-15'', ''alice'')"
    by simp
  have h3: "fmlookup (files sent_twice) ''2024-01-15 - alice.pdf'' =
      Some (File [Page ''alice@acme.com'' 3])"
    by (simp add: sent_twice_def world_of_def)
  have h4: "fmlookup (files sent_twice) ''Sent'' = Some Dir"
    by (simp add: sent_twice_def world_of_def)
  have ev: "fmlookup (files (snd (move_to_sent_folder ''2024-01-15 - alice.pdf'' sent_twice)))
     ''Sent/2024-01-15 - alice - 2.pdf'' = Some (File [Page ''alice@acme.com'' 3])"
    by (simp add: sent_twice_def run_defs path_defs)
  from move_to_sent_folder_unique_name [OF h1 h2 h3 h4] h1 h2 h3 h4 ev
  show ?thesis by blast
qed


section \<open>Filing into \<open>Failed to Send\<close>\<close>

text \<open>
  Claim C10. For an artifact routed to the failed destination the target is the join of
  \<open>Failed to Send\<close> with the artifact's path as it is, not with its base name (for a
  path that does not start with a separator, \<open>Failed to Send/\<close> followed by the
  path). There is no loop and no existence check: whenever the move succeeds the
  artifact is at that target, and when a file of that name is already there the
  single rename replaces it.
\<close>

theorem move_to_failed_send_folder_replaces:
  assumes src: "fmlookup (files w) p = Some (File data)"
  shows "(\<forall>w'. move_to_failed_send_folder p w = (None, w') \<longrightarrow>
            w' = w\<lparr>files := fmupd (join ''Failed to Send'' p) (File data) (fmdrop p (files w))\<rparr>) \<and>
         (take 1 p \<noteq> ''/'' \<longrightarrow> join ''Failed to Send'' p = ''Failed to Send/'' @ p) \<and>
         (isdir (files w) (dirname (join ''Failed to Send'' p)) \<and>
          fmlookup (files w) (join ''Failed to Send'' p) = Some (File old) \<longrightarrow>
            move_to_failed_send_folder p w =
              (None, w\<lparr>files := fmupd (join ''Failed to Send'' p) (File data)
                 (fmdrop p (files w))\<rparr>))"
proof (intro conjI allI impI)
  fix w'
  assume "move_to_failed_send_folder p w = (None, w')"
  with src show "w' = w\<lparr>files := fmupd (join ''Failed to Send'' p) (File data) (fmdrop p (files w))\<rparr>"
    by (auto simp: move_to_failed_send_folder_def rename_def split: if_splits sum.splits)
next
  assume "take 1 p \<noteq> ''/''"
  then show "join ''Failed to Send'' p = ''Failed to Send/'' @ p"
    by (simp add: join_def)
next
  assume a: "isdir (files w) (dirname (join ''Failed to Send'' p)) \<and>
          fmlookup (files w) (join ''Failed to Send'' p) = Some (File old)"
  have "join ''Failed to Send'' p \<noteq> []"
    by (auto simp: join_def)
  with src a show "move_to_failed_send_folder p w =
      (None, w\<lparr>files := fmupd (join ''Failed to Send'' p) (File data) (fmdrop p (files w))\<rparr>)"
    by (simp add: move_to_failed_send_folder_def rename_def)
qed

theorem move_to_failed_send_folder_replaces_witness:
  "fmlookup (files failed_twice) ''01-15-2024 - bob.pdf'' = Some (File [Page ''bob@acme.com'' 2]) \<and>
   take 1 ''01-15-2024 - bob.pdf'' \<noteq> ''/'' \<and>
   join ''Failed to Send'' ''01-15-2024 - bob.pdf'' = ''Failed to Send/01-15-2024 - bob.pdf'' \<and>
   isdir (files failed_twice) (dirname (join ''Failed to Send'' ''01-15-2024 - bob.pdf'')) \<and>
   fmlookup (files failed_twice) (join ''Failed to Send'' ''01-15-2024 - bob.pdf'') =
     Some (File [Page ''bob@acme.com'' 1]) \<and>
   move_to_failed_send_folder ''01-15-2024 - bob.pdf'' failed_twice =
     (None, failed_twice\<lparr>files :=
        fmupd (join ''Failed to Send'' ''01-15-2024 - bob.pdf'') (File [Page ''bob@acme.com'' 2])
          (fmdrop ''01-15-2024 - bob.pdf'' (files failed_twice))\<rparr>) \<and>
   fmlookup (files (snd (move_to_failed_send_folder ''01-15-2024 - bob.pdf'' failed_twice)))
     ''Failed to Send/01-15-2024 - bob.pdf'' = Some (File [Page ''bob@acme.com'' 2])"
proof -
  have h1: "fmlookup (files failed_twice) ''01-15-2024 - bob.pdf'' =
      Some (File [Page ''bob@acme.com'' 2])"
    by (simp add: failed_twice_def world_of_def)
  have h2: "take 1 ''01-15-2024 - bob.pdf'' \<noteq> ''/''" by simp
  have j: "join ''Failed to Send'' ''01-15-2024 - bob.pdf'' = ''Failed to Send/01-15-2024 - bob.pdf''"
    by (simp add: join_def)
  have h3: "isdir (files failed_twice) (dirname (join ''Failed to Send'' ''01-15-2024 - bob.pdf''))"
    unfolding j by (simp add: failed_twice_def world_of_def isdir_def path_defs)
  have h4: "fmlookup (files failed_twice) (join ''Failed to Send'' ''01-15-2024 - bob.pdf'') =
     Some (File [Page ''bob@acme.com'' 1])"
    unfolding j by (simp add: failed_twice_def world_of_def)
  note t = move_to_failed_send_folder_replaces [OF h1, of "[Page ''bob@acme.com'' 1]"]
  from t h3 h4 have r: "move_to_failed_send_folder ''01-15-2024 - bob.pdf'' failed_twice =
     (None, failed_twice\<lparr>files :=
        fmupd (join ''Failed to Send'' ''01-15-2024 - bob.pdf'') (File [Page ''bob@acme.com'' 2])
          (fmdrop ''01-15-2024 - bob.pdf'' (files failed_twice))\<rparr>)"
    by blast
  have "fmlookup (files (snd (move_to_failed_send_folder ''01-15-2024 - bob.pdf'' failed_twice)))
     ''Failed to Send/01-15-2024 - bob.pdf'' = Some (File [Page ''bob@acme.com'' 2])"
    unfolding r j by simp
  with h1 h2 j h3 h4 r show ?thesis by blast
qed


section \<open>One transport session per dispatch\<close>

lemma ensure_dir_eq:
  "d \<noteq> [] \<Longrightarrow> ensure_dir d w =
     (None, if path_exists (files w) d then w
            else w\<lparr>files := fmupd d Dir (files w), timeline := timeline w @ [Made_dir d]\<rparr>)"
  by (auto simp: ensure_dir_def path_exists_def makedirs_def)

lemma move_to_sent_folder_only_files:
  "sessions (snd (move_to_sent_folder p w)) = sessions w"
  "printed (snd (move_to_sent_folder p w)) = printed w"
  "handles (snd (move_to_sent_folder p w)) = handles w"
  "timeline (snd (move_to_sent_folder p w)) = timeline w"
  "header_fault (snd (move_to_sent_folder p w)) = header_fault w"
  "attachment_fault (snd (move_to_sent_folder p w)) = attachment_fault w"
  by (auto simp: move_to_sent_folder_def Let_def split: prod.splits option.splits sum.splits)

lemma smtp_send_sessions:
  "sessions (snd (smtp_send net u pw msg w)) =
     sessions w @
       [case net (length (sessions w)) of
          Some ConnectFailed \<Rightarrow> [SMTP_SSL ''smtp.gmail.com'' 465]
        | Some LoginFailed \<Rightarrow> [SMTP_SSL ''smtp.gmail.com'' 465, Login u pw, Quit]
        | _ \<Rightarrow> [SMTP_SSL ''smtp.gmail.com'' 465, Login u pw, Send_message msg, Quit]]"
  by (simp add: smtp_send_def split: option.splits smtp_failure.splits)

lemma andthen_simps:
  "andthen (None, w) f = f w"
  "andthen (Some e, w) f = (Some e, w)"
  by (simp_all add: andthen_def)

lemma andthen_keeps:
  assumes "\<And>w. h (snd (g w)) = h w"
  shows "h (snd (andthen r g)) = h (snd r)"
  using assms by (cases r) (auto simp: andthen_def split: option.splits)

text \<open>The world in which \<open>send_email\<close> builds its message: the call is on the
  timeline and \<open>Sent\<close> is there.\<close>

lemma send_email_eq:
  "send_email net sender_email sender_password receiver_email pay_stub_path body w =
     (let w1 = (if path_exists (files w) ''Sent''
                then w\<lparr>timeline := timeline w @ [Dispatch_called pay_stub_path]\<rparr>
                else w\<lparr>files := fmupd ''Sent'' Dir (files w),
                       timeline := timeline w @ [Dispatch_called pay_stub_path, Made_dir ''Sent'']\<rparr>)
      in case header_fault w sender_email receiver_email
                (case body of None \<Rightarrow> [] | Some b \<Rightarrow> b) of
           Some e \<Rightarrow> (Some e, w1)
         | None \<Rightarrow>
             (case read_file (files w1) pay_stub_path of
                Inl e \<Rightarrow> (Some e, w1)
              | Inr file_data \<Rightarrow>
                  (case attachment_fault w (basename pay_stub_path) of
                     Some e \<Rightarrow> (Some e, w1)
                   | None \<Rightarrow>
                       andthen
                         (smtp_send net sender_email sender_password
                            (Message
                               [(''Subject'', ''Pay Stub''), (''From'', sender_email),
                                (''To'', receiver_email)]
                               (case body of None \<Rightarrow> [] | Some b \<Rightarrow> b)
                               [(''application'', ''pdf'', basename pay_stub_path, file_data)])
                            w1)
                         (move_to_sent_folder pay_stub_path))))"
proof (cases "path_exists (files w) ''Sent''")
  case True
  have e: "ensure_dir ''Sent'' (w\<lparr>timeline := timeline w @ [Dispatch_called pay_stub_path]\<rparr>) =
      (None, w\<lparr>timeline := timeline w @ [Dispatch_called pay_stub_path]\<rparr>)"
    using True by (simp add: ensure_dir_def)
  show ?thesis
    unfolding send_email_def e andthen_simps using True
    by (simp add: Let_def split: option.splits sum.splits)
next
  case False
  have e: "ensure_dir ''Sent'' (w\<lparr>timeline := timeline w @ [Dispatch_called pay_stub_path]\<rparr>) =
      (None, w\<lparr>files := fmupd ''Sent'' Dir (files w),
               timeline := timeline w @ [Dispatch_called pay_stub_path, Made_dir ''Sent'']\<rparr>)"
    using False by (simp add: ensure_dir_def makedirs_def path_exists_def)
  show ?thesis
    unfolding send_email_def e andthen_simps using False
    by (simp add: Let_def split: option.splits sum.splits)
qed

lemma send_email_sessions:
  assumes "fmlookup (files w) pay_stub_path = Some (File data)"
    and "header_fault w sender_email receiver_email (case body of None \<Rightarrow> [] | Some b \<Rightarrow> b) = None"
    and "attachment_fault w (basename pay_stub_path) = None"
  shows "sessions (snd (send_email net sender_email sender_password receiver_email
            pay_stub_path body w)) =
     sessions w @
       [case net (length (sessions w)) of
          Some ConnectFailed \<Rightarrow> [SMTP_SSL ''smtp.gmail.com'' 465]
        | Some LoginFailed \<Rightarrow>
            [SMTP_SSL ''smtp.gmail.com'' 465, Login sender_email sender_password, Quit]
        | _ \<Rightarrow>
            [SMTP_SSL ''smtp.gmail.com'' 465, Login sender_email sender_password,
             Send_message
               (Message
                  [(''Subject'', ''Pay Stub''), (''From'', sender_email), (''To'', receiver_email)]
                  (case body of None \<Rightarrow> [] | Some b \<Rightarrow> b)
                  [(''application'', ''pdf'', basename pay_stub_path, data)]),
             Quit]]"
proof -
  define w1 where "w1 = (if path_exists (files w) ''Sent''
                then w\<lparr>timeline := timeline w @ [Dispatch_called pay_stub_path]\<rparr>
                else w\<lparr>files := fmupd ''Sent'' Dir (files w),
                       timeline := timeline w @ [Dispatch_called pay_stub_path, Made_dir ''Sent'']\<rparr>)"
  have r: "read_file (files w1) pay_stub_path = Inr data"
    using assms(1) by (auto simp: w1_def read_file_def path_exists_def)
  have s1: "sessions w1 = sessions w" by (simp add: w1_def)
  let ?msg = "Message
      [(''Subject'', ''Pay Stub''), (''From'', sender_email), (''To'', receiver_email)]
      (case body of None \<Rightarrow> [] | Some b \<Rightarrow> b)
      [(''application'', ''pdf'', basename pay_stub_path, data)]"
  have "send_email net sender_email sender_password receiver_email pay_stub_path body w =
      andthen (smtp_send net sender_email sender_password ?msg w1)
        (move_to_sent_folder pay_stub_path)"
    unfolding send_email_eq Let_def w1_def [symmetric] r assms(2,3) by simp
  then have "sessions (snd (send_email net sender_email sender_password receiver_email
      pay_stub_path body w)) =
      sessions (snd (smtp_send net sender_email sender_password ?msg w1))"
    by (simp add: andthen_keeps [where h = sessions] move_to_sent_folder_only_files)
  then show ?thesis
    unfolding smtp_send_sessions s1 .
qed

text \<open>A call whose message the library refuses, or whose artifact cannot be read,
  raises before a session is opened.\<close>

lemma send_email_no_session:
  assumes "header_fault w sender_email receiver_email (case body of None \<Rightarrow> [] | Some b \<Rightarrow> b) = Some e
     \<or> fmlookup (files w) pay_stub_path = None
     \<or> attachment_fault w (basename pay_stub_path) = Some e"
  shows "fst (send_email net sender_email sender_password receiver_email pay_stub_path body w)
           \<noteq> None \<and>
         sessions (snd (send_email net sender_email sender_password receiver_email
            pay_stub_path body w)) = sessions w"
  using assms unfolding send_email_eq Let_def
  by (auto simp: read_file_def path_exists_def split: option.splits sum.splits node.splits)

lemma basename_under:
  assumes "CHR ''/'' \<notin> set name" "folder = [] \<or> last folder = CHR ''/''"
  shows "basename (folder @ name) = name"
proof (cases "folder = []")
  case True
  with assms(1) show ?thesis by (simp add: basename_id)
next
  case False
  with assms(2) have "folder = butlast folder @ ''/''"
    using append_butlast_last_id [of folder] by simp
  then obtain d where d: "folder = d @ ''/''" ..
  show ?thesis
    unfolding d using basename_in_dir [OF assms(1), of d] by simp
qed

text \<open>
  Claim C8 (amended). A dispatch call whose message the \<open>email\<close> library accepts
  (sender, recipient and body for the headers and the content, the artifact's name
  for the attachment) and whose artifact is there to be read opens exactly one
  transport session, by \<open>SMTP_SSL\<close> on \<open>smtp.gmail.com\<close>, port 465. If the
  connection is made it logs in with the supplied credentials, and if the login
  succeeds it sends one message: subject \<open>Pay Stub\<close>, the credential address as
  sender, the given address as the only recipient, the given body (the empty string
  when none is given), and one attachment, of type \<open>application/pdf\<close>, holding the
  artifact's data and named \<open>name\<close>, where the artifact's path is \<open>name\<close> alone
  or a folder ending in \<open>/\<close> followed by \<open>name\<close>, and \<open>name\<close> has no \<open>/\<close>.
\<close>

theorem send_email_one_session:
  assumes "fmlookup (files w) (folder @ name) = Some (File data)"
    and "CHR ''/'' \<notin> set name"
    and "folder = [] \<or> last folder = CHR ''/''"
    and "header_fault w sender_email receiver_email (case body of None \<Rightarrow> [] | Some b \<Rightarrow> b) = None"
    and "attachment_fault w name = None"
  shows "sessions (snd (send_email net sender_email sender_password receiver_email
            (folder @ name) body w)) =
     sessions w @
       [case net (length (sessions w)) of
          Some ConnectFailed \<Rightarrow> [SMTP_SSL ''smtp.gmail.com'' 465]
        | Some LoginFailed \<Rightarrow>
            [SMTP_SSL ''smtp.gmail.com'' 465, Login sender_email sender_password, Quit]
        | _ \<Rightarrow>
            [SMTP_SSL ''smtp.gmail.com'' 465, Login sender_email sender_password,
             Send_message
               (Message
                  [(''Subject'', ''Pay Stub''), (''From'', sender_email), (''To'', receiver_email)]
                  (case body of None \<Rightarrow> [] | Some b \<Rightarrow> b)
                  [(''application'', ''pdf'', name, data)]),
             Quit]]"
proof -
  have b: "basename (folder @ name) = name"
    using assms(2,3) by (rule basename_under)
  show ?thesis
    using send_email_sessions [where pay_stub_path = "folder @ name", unfolded b, OF assms(1,4,5)] .
qed

theorem send_email_one_session_witness:
  "fmlookup (files in_folder) (''out/'' @ ''01-15-2024 - bob.pdf'') =
     Some (File [Page ''bob@acme.com'' 2]) \<and>
   CHR ''/'' \<notin> set ''01-15-2024 - bob.pdf'' \<and>
   (''out/'' = [] \<or> last ''out/'' = CHR ''/'') \<and>
   header_fault in_folder ''hr@acme.com'' ''bob@acme.com'' [] = None \<and>
   attachment_fault in_folder ''01-15-2024 - bob.pdf'' = None \<and>
   sessions (snd (send_email (\<lambda>k. None) ''hr@acme.com'' ''secret'' ''bob@acme.com''
      ''out/01-15-2024 - bob.pdf'' None in_folder)) =
     [[SMTP_SSL ''smtp.gmail.com'' 465, Login ''hr@acme.com'' ''secret'',
       Send_message
         (Message
            [(''Subject'', ''Pay Stub''), (''From'', ''hr@acme.com''), (''To'', ''bob@acme.com'')]
            []
            [(''application'', ''pdf'', ''01-15-2024 - bob.pdf'', [Page ''bob@acme.com'' 2])]),
       Quit]]"
proof -
  have h: "fmlookup (files in_folder) (''out/'' @ ''01-15-2024 - bob.pdf'') =
      Some (File [Page ''bob@acme.com'' 2])"
    by (simp add: in_folder_def world_of_def)
  have n: "CHR ''/'' \<notin> set ''01-15-2024 - bob.pdf''" by simp
  have f: "''out/'' = [] \<or> last ''out/'' = CHR ''/''" by simp
  have hf: "header_fault in_folder ''hr@acme.com'' ''bob@acme.com''
      (case None of None \<Rightarrow> [] | Some b \<Rightarrow> b) = None"
    by (simp add: in_folder_def world_of_def)
  have af: "attachment_fault in_folder ''01-15-2024 - bob.pdf'' = None"
    by (simp add: in_folder_def world_of_def)
  have s: "sessions in_folder = []"
    by (simp add: in_folder_def world_of_def)
  from send_email_one_session [OF h n f hf af, of "\<lambda>k. None" "''secret''"] h hf af
  show ?thesis by (simp add: s)
qed

text \<open>
  Claim C8 as stated, for every dispatch call, fails: the \<open>email\<close> library raises
  \<open>ValueError\<close> when the sender has a line feed in it, which is before the file is
  read and before a session is opened. The call raises and no session is opened.
\<close>

theorem refused_sender_opens_no_session:
  "fmlookup (files strict_headers) ''01-15-2024 - bob.pdf'' =
     Some (File [Page ''bob@acme.com'' 2]) \<and>
   fst (send_email (\<lambda>k. None) (''hr@acme.com'' @ [CHR 0x0A] @ ''Bcc: x@acme.com'') ''secret''
      ''bob@acme.com'' ''01-15-2024 - bob.pdf'' None strict_headers) = Some ValueError \<and>
   sessions (snd (send_email (\<lambda>k. None) (''hr@acme.com'' @ [CHR 0x0A] @ ''Bcc: x@acme.com'')
      ''secret'' ''bob@acme.com'' ''01-15-2024 - bob.pdf'' None strict_headers)) = []"
  by (simp add: strict_headers_def run_defs path_defs)


section \<open>The page loop\<close>

lemma match_plus_group:
  "match_plus rest x = Some (g, t) \<Longrightarrow> g \<noteq> [] \<and> list_all local_char g"
proof (induction x arbitrary: g t)
  case Nil
  then show ?case by simp
next
  case (Cons c x)
  then show ?case
    by (cases "match_plus rest x") (auto split: if_splits)
qed

lemma re_search_group:
  assumes "re_search dm s = Some (email, ident)"
  shows "ident \<noteq> []" "list_all local_char ident"
proof -
  from assms obtain t where "search (tail_items dm) s = Some (ident, t)"
    by (auto simp: re_search_def)
  from search_Some [OF this] obtain x where "match_plus (tail_items dm) x = Some (ident, t)"
    by blast
  from match_plus_group [OF this] show "ident \<noteq> []" "list_all local_char ident"
    by simp_all
qed

lemma local_char_no_slash: "local_char c \<Longrightarrow> c \<noteq> CHR ''/''"
  by (auto simp: local_char_def word_char_def)

lemma replace_slash_no_slash: "CHR ''/'' \<notin> set (replace_slash s)"
  by (auto simp: replace_slash_def)

lemma output_no_slash:
  assumes "re_search dm s = Some (email, ident)" "CHR ''/'' \<notin> set date"
  shows "CHR ''/'' \<notin> set (date @ '' - '' @ ident @ ''.pdf'')"
  using re_search_group(2) [OF assms(1)] assms(2) local_char_no_slash
  by (auto simp: list_all_iff)

lemma pdf_name_neq:
  "x @ ''.pdf'' \<noteq> ''Sent''" "x @ ''.pdf'' \<noteq> ''Failed to Send''" "x @ ''.pdf'' \<noteq> []"
proof -
  have l: "last (x @ ''.pdf'') = CHR ''f''" by simp
  show "x @ ''.pdf'' \<noteq> ''Sent''"
  proof
    assume "x @ ''.pdf'' = ''Sent''"
    then have "last (x @ ''.pdf'') = last ''Sent''" by (rule arg_cong)
    then show False unfolding l by simp
  qed
  show "x @ ''.pdf'' \<noteq> ''Failed to Send''"
  proof
    assume "x @ ''.pdf'' = ''Failed to Send''"
    then have "last (x @ ''.pdf'') = last ''Failed to Send''" by (rule arg_cong)
    then show False unfolding l by simp
  qed
  show "x @ ''.pdf'' \<noteq> []" by simp
qed

lemma re_search_Some_address:
  assumes "re_search dm s = Some (a, i)"
  shows "\<exists>pre post. s = pre @ a @ post \<and> is_address dm a"
proof -
  from assms obtain t where st: "search (tail_items dm) s = Some (i, t)" and a: "a = i @ t"
    by (auto simp: re_search_def)
  from search_Some [OF st] obtain pre x where
    px: "s = pre @ x" "match_plus (tail_items dm) x = Some (i, t)"
    by blast
  from px(2) obtain u post where
    g: "i \<noteq> []" "list_all local_char i" "t = ''@'' @ u @ ''.com''" "list_all2 item_ok dm u"
      "x = i @ t @ post"
    unfolding match_plus_address by blast
  have "is_address dm a" unfolding is_address_iff a using g(1-4) by blast
  moreover have "s = pre @ a @ post" using px(1) g(5) a by simp
  ultimately show ?thesis by blast
qed

lemma re_search_None_iff:
  "re_search dm s = None \<longleftrightarrow>
     (\<forall>pre a post. s = pre @ a @ post \<longrightarrow> \<not> is_address dm a)"
proof
  assume n: "re_search dm s = None"
  then have sn: "search (tail_items dm) s = None"
    by (simp add: re_search_def split: option.splits)
  show "\<forall>pre a post. s = pre @ a @ post \<longrightarrow> \<not> is_address dm a"
  proof (intro allI impI notI)
    fix pre a post
    assume s: "s = pre @ a @ post" and "is_address dm a"
    then obtain l u where l: "l \<noteq> []" "list_all local_char l" "list_all2 item_ok dm u"
      "a = l @ ''@'' @ u @ ''.com''"
      unfolding is_address_iff by blast
    then have "match_plus (tail_items dm) (a @ post) = Some (l, ''@'' @ u @ ''.com'')"
      unfolding match_plus_address by auto
    moreover have "match_plus (tail_items dm) (a @ post) = None"
      using search_None [OF sn s] .
    ultimately show False by simp
  qed
next
  assume h: "\<forall>pre a post. s = pre @ a @ post \<longrightarrow> \<not> is_address dm a"
  show "re_search dm s = None"
  proof (cases "re_search dm s")
    case None
    then show ?thesis .
  next
    case (Some r)
    obtain a i where "r = (a, i)" by (cases r)
    with Some re_search_Some_address [of dm s a i] h
    show ?thesis by blast
  qed
qed

text \<open>
  Claim C6. For a page whose text contains no address (no substring of one or more
  local-part characters, \<open>@\<close>, a text matching the pattern fragment at the
  placeholder, \<open>.com\<close>), the search returns no match and the page is skipped: the
  body of the loop prints the diagnostic with the page's number and changes nothing
  else (no artifact, no dispatch), raises nothing, and the loop goes on with the next
  page.
\<close>

theorem page_without_address_skipped:
  assumes "\<forall>pre a post. text_of page = pre @ a @ post \<longrightarrow> \<not> is_address dm a"
  shows "re_search dm (text_of page) = None \<and>
     process_page dm net period_end_date sender_email sender_password email_body
         page_num page w =
       (None, w\<lparr>printed := printed w @ [No_email_found (page_num + 1)]\<rparr>) \<and>
     page_loop dm net period_end_date sender_email sender_password email_body
         page_num (page # pages) w =
       page_loop dm net period_end_date sender_email sender_password email_body
         (page_num + 1) pages (w\<lparr>printed := printed w @ [No_email_found (page_num + 1)]\<rparr>)"
proof -
  have r: "re_search dm (text_of page) = None"
    using assms unfolding re_search_None_iff .
  have p: "process_page dm net period_end_date sender_email sender_password email_body
         page_num page w =
       (None, w\<lparr>printed := printed w @ [No_email_found (page_num + 1)]\<rparr>)"
    by (simp add: process_page_def r)
  show ?thesis
    using r p by (simp add: andthen_simps)
qed

theorem page_without_address_skipped_witness:
  "re_search (map Lit ''acme'') (text_of (Page ''Pay stub for bob@example.org'' (7::nat))) = None \<and>
   process_page (map Lit ''acme'') (\<lambda>k. None) ''01-15-2024'' ''hr@acme.com'' ''secret'' []
       1 (Page ''Pay stub for bob@example.org'' 7) two_stubs =
     (None, two_stubs\<lparr>printed := printed two_stubs @ [No_email_found (1 + 1)]\<rparr>) \<and>
   printed (snd (page_loop (map Lit ''acme'') (\<lambda>k. None) ''01-15-2024'' ''hr@acme.com''
       ''secret'' [] 1 [Page ''Pay stub for bob@example.org'' 7, Page ''nothing here'' 8]
       two_stubs)) = [No_email_found 2, No_email_found 3]"
proof -
  have "re_search (map Lit ''acme'') (text_of (Page ''Pay stub for bob@example.org'' (7::nat))) = None"
    by (simp add: regex_defs)
  then have h: "\<forall>pre a post. text_of (Page ''Pay stub for bob@example.org'' (7::nat)) = pre @ a @ post \<longrightarrow>
      \<not> is_address (map Lit ''acme'') a"
    unfolding re_search_None_iff .
  have e: "printed (snd (page_loop (map Lit ''acme'') (\<lambda>k. None) ''01-15-2024'' ''hr@acme.com''
       ''secret'' [] 1 [Page ''Pay stub for bob@example.org'' 7, Page ''nothing here'' 8]
       two_stubs)) = [No_email_found 2, No_email_found 3]"
    by (simp add: two_stubs_def run_defs regex_defs)
  from page_without_address_skipped [OF h, of "\<lambda>k. None" "''01-15-2024''" "''hr@acme.com''"
      "''secret''" "[]" 1 two_stubs] e
  show ?thesis by blast
qed

text \<open>
  Claim C4, as the program has it. The artifact is created outside the \<open>try\<close>
  block: when creating it fails, the exception leaves the body and the loop. Nothing
  is printed, nothing is filed, no later page is processed: the world is the one the
  page started with, and the run ends with the exception.
\<close>

theorem splitting_failure_aborts_run:
  assumes "re_search dm (text_of page) = Some (email, email_identifier)"
    and "save (files w) (period_end_date @ '' - '' @ email_identifier @ ''.pdf'') [page] = Inl e"
  shows "process_page dm net period_end_date sender_email sender_password email_body
         page_num page w = (Some e, w) \<and>
     page_loop dm net period_end_date sender_email sender_password email_body
         page_num (page # pages) w = (Some e, w)"
proof -
  have "process_page dm net period_end_date sender_email sender_password email_body
         page_num page w = (Some e, w)"
    using assms by (simp add: process_page_def Let_def)
  then show ?thesis by (simp add: andthen_simps)
qed

theorem splitting_failure_aborts_run_witness:
  "re_search (map Lit ''acme'') (text_of (Page ''Pay stub for a@acme.com'' (1::nat))) =
     Some (''a@acme.com'', ''a'') \<and>
   save (files two_stubs) (''01/15/2024'' @ '' - '' @ ''a'' @ ''.pdf'')
     [Page ''Pay stub for a@acme.com'' 1] = Inl FitzError \<and>
   page_loop (map Lit ''acme'') (\<lambda>k. None) ''01/15/2024'' ''hr@acme.com'' ''secret'' [] 0
     [Page ''Pay stub for a@acme.com'' 1, Page ''Pay stub for b@acme.com'' 2] two_stubs =
     (Some FitzError, two_stubs)"
proof -
  have h1: "re_search (map Lit ''acme'') (text_of (Page ''Pay stub for a@acme.com'' (1::nat))) =
     Some (''a@acme.com'', ''a'')"
    by (simp add: regex_defs)
  have h2: "save (files two_stubs) (''01/15/2024'' @ '' - '' @ ''a'' @ ''.pdf'')
     [Page ''Pay stub for a@acme.com'' 1] = Inl FitzError"
    by (simp add: two_stubs_def run_defs path_defs)
  from splitting_failure_aborts_run [OF h1 h2, of "\<lambda>k. None" "''hr@acme.com''" "''secret''" "[]" 0
      "[Page ''Pay stub for b@acme.com'' 2]"] h1 h2
  show ?thesis by blast
qed

text \<open>
  The claim C4 as stated fails: with the period end date \<open>01/15/2024\<close> the artifact
  of the first page cannot be saved (there is no directory \<open>01/15\<close>); the run ends
  with the exception, prints nothing and never reaches the second page.
\<close>

theorem splitting_failure_not_page_local:
  "fst (process_pay_stubs (map Lit ''acme'') (\<lambda>k. None) ''stubs.pdf'' ''01/15/2024''
          ''hr@acme.com'' ''secret'' [] two_stubs) = Some FitzError \<and>
   printed (snd (process_pay_stubs (map Lit ''acme'') (\<lambda>k. None) ''stubs.pdf'' ''01/15/2024''
          ''hr@acme.com'' ''secret'' [] two_stubs)) = [] \<and>
   sessions (snd (process_pay_stubs (map Lit ''acme'') (\<lambda>k. None) ''stubs.pdf'' ''01/15/2024''
          ''hr@acme.com'' ''secret'' [] two_stubs)) = []"
  by (simp add: two_stubs_def run_defs regex_defs path_defs)


section \<open>The source document handle\<close>

lemma move_to_failed_send_folder_only_files:
  "sessions (snd (move_to_failed_send_folder p w)) = sessions w"
  "printed (snd (move_to_failed_send_folder p w)) = printed w"
  "handles (snd (move_to_failed_send_folder p w)) = handles w"
  "timeline (snd (move_to_failed_send_folder p w)) = timeline w"
  "header_fault (snd (move_to_failed_send_folder p w)) = header_fault w"
  "attachment_fault (snd (move_to_failed_send_folder p w)) = attachment_fault w"
  by (auto simp: move_to_failed_send_folder_def split: sum.splits)

lemma smtp_send_frame:
  "files (snd (smtp_send net u pw msg w)) = files w"
  "printed (snd (smtp_send net u pw msg w)) = printed w"
  "handles (snd (smtp_send net u pw msg w)) = handles w"
  "header_fault (snd (smtp_send net u pw msg w)) = header_fault w"
  "attachment_fault (snd (smtp_send net u pw msg w)) = attachment_fault w"
  by (simp_all add: smtp_send_def split: option.splits smtp_failure.splits)

lemma send_email_frame:
  "printed (snd (send_email net se sp re p body w)) = printed w"
  "handles (snd (send_email net se sp re p body w)) = handles w"
  unfolding send_email_eq Let_def
  by (auto split: sum.splits option.splits
      simp: andthen_keeps [where h = printed] andthen_keeps [where h = handles]
        move_to_sent_folder_only_files smtp_send_frame)

lemma process_page_handles:
  "handles (snd (process_page dm net date se sp body n page w)) = handles w"
  unfolding process_page_def Let_def
  by (auto split: option.splits sum.splits prod.splits
      simp: move_to_failed_send_folder_only_files
      dest: arg_cong [where f = "\<lambda>r. handles (snd r)"] simp: send_email_frame)

lemma page_loop_handles:
  "handles (snd (page_loop dm net date se sp body n pages w)) = handles w"
proof (induction pages arbitrary: n w)
  case Nil
  then show ?case by simp
next
  case (Cons page pages)
  obtain r w' where r: "process_page dm net date se sp body n page w = (r, w')"
    by (cases "process_page dm net date se sp body n page w")
  with process_page_handles [of dm net date se sp body n page w]
  have h: "handles w' = handles w" by simp
  show ?case
    using r h Cons.IH by (cases r) (simp_all add: andthen_simps)
qed


lemma fst_andthen:
  "fst (andthen r g) = (case fst r of Some e \<Rightarrow> Some e | None \<Rightarrow> fst (g (snd r)))"
  by (cases r) (auto simp: andthen_def split: option.splits)

text \<open>
  Claim C7, as the program has it. When the source document can be opened it is opened
  once, before the loop. It is closed once, after the loop, when the loop ends without
  an exception; when an exception leaves the loop the program never closes it
  (\<open>doc.close()\<close> is a plain statement after the loop, with no \<open>finally\<close>).
\<close>

theorem source_document_closed_on_normal_exit:
  assumes "fmlookup (files w) pdf_path = Some (File doc)"
  shows "handles (snd (process_pay_stubs dm net pdf_path period_end_date sender_email
            sender_password email_body w)) =
     handles w @
       (if fst (process_pay_stubs dm net pdf_path period_end_date sender_email
                  sender_password email_body w) = None
        then [Doc_open pdf_path, Doc_close pdf_path]
        else [Doc_open pdf_path])"
proof -
  let ?w1 = "if path_exists (files w) ''Failed to Send'' then w
             else w\<lparr>files := fmupd ''Failed to Send'' Dir (files w),
                    timeline := timeline w @ [Made_dir ''Failed to Send'']\<rparr>"
  let ?w2 = "?w1\<lparr>handles := handles ?w1 @ [Doc_open pdf_path],
                 timeline := timeline ?w1 @ [Opened_source pdf_path]\<rparr>"
  let ?loop = "page_loop dm net period_end_date sender_email sender_password email_body 0 doc ?w2"
  have e: "ensure_dir ''Failed to Send'' w = (None, ?w1)"
    by (rule ensure_dir_eq) simp
  have o: "fitz_open (files ?w1) pdf_path = Inr doc"
    using assms by (auto simp: fitz_open_def path_exists_def)
  have p: "process_pay_stubs dm net pdf_path period_end_date sender_email sender_password
      email_body w =
      andthen ?loop (\<lambda>w. (None, w\<lparr>handles := handles w @ [Doc_close pdf_path]\<rparr>))"
    unfolding process_pay_stubs_def e andthen_simps o by simp
  have h: "handles (snd ?loop) = handles w @ [Doc_open pdf_path]"
    unfolding page_loop_handles by simp
  obtain r w' where r: "?loop = (r, w')" by (cases ?loop)
  with h have h': "handles w' = handles w @ [Doc_open pdf_path]" by simp
  show ?thesis
    unfolding p r using h' by (cases r) (simp_all add: andthen_simps)
qed


theorem source_document_closed_on_normal_exit_witness:
  "fmlookup (files two_stubs) ''stubs.pdf'' =
     Some (File [Page ''Pay stub for a@acme.com'' 1, Page ''Pay stub for b@acme.com'' 2]) \<and>
   fst (process_pay_stubs (map Lit ''acme'') (\<lambda>k. None) ''stubs.pdf'' ''01-15-2024''
      ''hr@acme.com'' ''secret'' [] two_stubs) = None \<and>
   handles (snd (process_pay_stubs (map Lit ''acme'') (\<lambda>k. None) ''stubs.pdf'' ''01-15-2024''
      ''hr@acme.com'' ''secret'' [] two_stubs)) =
     [Doc_open ''stubs.pdf'', Doc_close ''stubs.pdf'']"
proof -
  have h: "fmlookup (files two_stubs) ''stubs.pdf'' =
     Some (File [Page ''Pay stub for a@acme.com'' 1, Page ''Pay stub for b@acme.com'' 2])"
    by (simp add: two_stubs_def world_of_def)
  have f: "fst (process_pay_stubs (map Lit ''acme'') (\<lambda>k. None) ''stubs.pdf'' ''01-15-2024''
      ''hr@acme.com'' ''secret'' [] two_stubs) = None"
    by (simp add: two_stubs_def run_defs regex_defs path_defs)
  have e: "handles two_stubs = []" by (simp add: two_stubs_def world_of_def)
  from source_document_closed_on_normal_exit [OF h, of "map Lit ''acme''" "\<lambda>k. None"
      "''01-15-2024''" "''hr@acme.com''" "''secret''" "[]"] h f e
  show ?thesis by simp
qed

text \<open>
  The claim C7 as stated fails: in the run that cannot save its first artifact the
  document is opened and never closed.
\<close>

theorem source_document_left_open_on_abort:
  "fst (process_pay_stubs (map Lit ''acme'') (\<lambda>k. None) ''stubs.pdf'' ''01/15/2024''
      ''hr@acme.com'' ''secret'' [] two_stubs) = Some FitzError \<and>
   handles (snd (process_pay_stubs (map Lit ''acme'') (\<lambda>k. None) ''stubs.pdf'' ''01/15/2024''
      ''hr@acme.com'' ''secret'' [] two_stubs)) = [Doc_open ''stubs.pdf'']"
  by (simp add: two_stubs_def run_defs regex_defs path_defs)


section \<open>The tracked directories\<close>

lemma rename_keeps:
  "rename fs src dst = Inr fs' \<Longrightarrow> q \<noteq> src \<Longrightarrow> path_exists fs q \<Longrightarrow> path_exists fs' q"
  by (auto simp: rename_def path_exists_def split: option.splits node.splits if_splits)

lemma save_keeps:
  "save fs p d = Inr fs' \<Longrightarrow> path_exists fs q \<Longrightarrow> path_exists fs' q"
  by (auto simp: save_def path_exists_def split: if_splits)

lemma move_to_failed_send_folder_keeps:
  "q \<noteq> p \<Longrightarrow> path_exists (files w) q \<Longrightarrow>
     path_exists (files (snd (move_to_failed_send_folder p w))) q"
  by (auto simp: move_to_failed_send_folder_def split: sum.splits dest: rename_keeps)

lemma move_to_sent_folder_keeps:
  assumes "path_exists (files w) q" "q \<noteq> p \<or> q = ''Sent''"
  shows "path_exists (files (snd (move_to_sent_folder p w))) q"
proof (cases "q = p")
  case False
  with assms(1) show ?thesis
    by (auto simp: move_to_sent_folder_def Let_def
        split: prod.splits option.splits sum.splits dest: rename_keeps)
next
  case True
  with assms(2) have p: "p = ''Sent''" by simp
  have "move_to_sent_folder ''Sent'' w = (Some ValueError, w)"
    by (simp add: move_to_sent_folder_def path_defs)
  with assms(1) True p show ?thesis by simp
qed

lemma send_email_keeps:
  assumes "path_exists (files w) q \<or> q = ''Sent''" "q \<noteq> p \<or> q = ''Sent''"
  shows "path_exists (files (snd (send_email net se sp re p body w))) q"
proof -
  define w1 where "w1 = (if path_exists (files w) ''Sent''
                then w\<lparr>timeline := timeline w @ [Dispatch_called p]\<rparr>
                else w\<lparr>files := fmupd ''Sent'' Dir (files w),
                       timeline := timeline w @ [Dispatch_called p, Made_dir ''Sent'']\<rparr>)"
  have q1: "path_exists (files w1) q"
    using assms(1) by (auto simp: w1_def path_exists_def)
  have sq: "path_exists (files (snd (andthen (smtp_send net se sp msg w1)
      (move_to_sent_folder p)))) q" for msg
  proof -
    obtain r w2 where r: "smtp_send net se sp msg w1 = (r, w2)"
      by (cases "smtp_send net se sp msg w1")
    with smtp_send_frame(1) [of net se sp msg w1] have "files w2 = files w1"
      by simp
    with q1 have q2: "path_exists (files w2) q" by simp
    with move_to_sent_folder_keeps [OF q2 assms(2)] show ?thesis
      unfolding r by (cases r) (simp_all add: andthen_simps)
  qed
  show ?thesis
    unfolding send_email_eq Let_def w1_def [symmetric]
    using q1 sq by (simp split: option.splits sum.splits)
qed

lemma process_page_dispatch:
  assumes "re_search dm (text_of page) = Some (email, ident)"
    and "save (files w) (date @ '' - '' @ ident @ ''.pdf'') [page] = Inr fs1"
    and "send_email net se sp email (date @ '' - '' @ ident @ ''.pdf'') (Some body)
           (w\<lparr>files := fs1\<rparr>) = (r, w')"
  shows "process_page dm net date se sp body n page w =
     (case r of
        None \<Rightarrow> (None, w'\<lparr>printed := printed w' @ [Sent_pay_stub_to email]\<rparr>)
      | Some e \<Rightarrow>
          move_to_failed_send_folder (date @ '' - '' @ ident @ ''.pdf'')
            (w'\<lparr>printed := printed w' @ [Failed_to_send email e]\<rparr>))"
  using assms by (simp add: process_page_def Let_def split: option.splits)

lemma output_neq:
  "date @ '' - '' @ ident @ ''.pdf'' \<noteq> ''Sent''"
  "date @ '' - '' @ ident @ ''.pdf'' \<noteq> ''Failed to Send''"
  using pdf_name_neq [of "date @ '' - '' @ ident"] by simp_all

lemma process_page_keeps:
  assumes "path_exists (files w) ''Failed to Send''"
  shows "path_exists (files (snd (process_page dm net date se sp body n page w)))
     ''Failed to Send''"
proof (cases "re_search dm (text_of page)")
  case None
  with assms show ?thesis by (simp add: process_page_def)
next
  case (Some m)
  obtain email ident where m: "m = (email, ident)" by (cases m)
  let ?out = "date @ '' - '' @ ident @ ''.pdf''"
  show ?thesis
  proof (cases "save (files w) ?out [page]")
    case (Inl e)
    with Some m assms show ?thesis by (simp add: process_page_def Let_def)
  next
    case (Inr fs1)
    obtain r w' where r: "send_email net se sp email ?out (Some body) (w\<lparr>files := fs1\<rparr>) = (r, w')"
      by (cases "send_email net se sp email ?out (Some body) (w\<lparr>files := fs1\<rparr>)")
    have n: "''Failed to Send'' \<noteq> ?out" using output_neq(2) [of date ident] by simp
    have "path_exists fs1 ''Failed to Send''" using save_keeps [OF Inr assms] .
    then have "path_exists (files (snd (send_email net se sp email ?out (Some body)
        (w\<lparr>files := fs1\<rparr>)))) ''Failed to Send''"
      using n by (intro send_email_keeps) simp_all
    then have k: "path_exists (files w') ''Failed to Send''" unfolding r by simp
    show ?thesis
      unfolding process_page_dispatch [OF Some [unfolded m] Inr r]
      using k n by (cases r) (simp_all add: move_to_failed_send_folder_keeps)
  qed
qed

lemma page_loop_keeps:
  "path_exists (files w) ''Failed to Send'' \<Longrightarrow>
     path_exists (files (snd (page_loop dm net date se sp body n pages w))) ''Failed to Send''"
proof (induction pages arbitrary: n w)
  case Nil
  then show ?case by simp
next
  case (Cons page pages)
  obtain r w' where r: "process_page dm net date se sp body n page w = (r, w')"
    by (cases "process_page dm net date se sp body n page w")
  with process_page_keeps [OF Cons.prems, of dm net date se sp body n page]
  have k: "path_exists (files w') ''Failed to Send''" by simp
  show ?case
    using r k Cons.IH [OF k] by (cases r) (simp_all add: andthen_simps)
qed

lemma smtp_send_timeline:
  "timeline (snd (smtp_send net u pw msg w)) = timeline w @ [Connected]"
  by (simp add: smtp_send_def split: option.splits smtp_failure.splits)

lemma send_email_timeline:
  "\<exists>rest. timeline (snd (send_email net se sp re p body w)) =
       timeline w @ [Dispatch_called p] @
         (if path_exists (files w) ''Sent'' then [] else [Made_dir ''Sent'']) @ rest \<and>
     (rest = [] \<or> rest = [Connected])"
proof -
  define w1 where "w1 = (if path_exists (files w) ''Sent''
                then w\<lparr>timeline := timeline w @ [Dispatch_called p]\<rparr>
                else w\<lparr>files := fmupd ''Sent'' Dir (files w),
                       timeline := timeline w @ [Dispatch_called p, Made_dir ''Sent'']\<rparr>)"
  define start where "start = timeline w @ [Dispatch_called p] @
         (if path_exists (files w) ''Sent'' then [] else [Made_dir ''Sent''])"
  have t1: "timeline w1 = start"
    by (simp add: w1_def start_def)
  have ts: "timeline (snd (andthen (smtp_send net se sp msg w1) (move_to_sent_folder p))) =
      start @ [Connected]" for msg
    by (simp add: andthen_keeps [where h = timeline] move_to_sent_folder_only_files
        smtp_send_timeline t1)
  have "timeline (snd (send_email net se sp re p body w)) = start \<or>
      timeline (snd (send_email net se sp re p body w)) = start @ [Connected]"
    unfolding send_email_eq Let_def w1_def [symmetric]
    using t1 ts by (simp split: option.splits sum.splits)
  then have "\<exists>rest. timeline (snd (send_email net se sp re p body w)) = start @ rest \<and>
     (rest = [] \<or> rest = [Connected])"
    by auto
  then show ?thesis unfolding start_def by simp
qed

text \<open>What a page adds to the timeline: nothing, or a dispatch. A page that adds
  nothing leaves the files as they were.\<close>

lemma process_page_timeline:
  "\<exists>rest. timeline (snd (process_page dm net date se sp body n page w)) = timeline w @ rest \<and>
     Made_dir ''Failed to Send'' \<notin> set rest \<and>
     ((\<forall>p. Dispatch_called p \<notin> set rest) \<longrightarrow>
        rest = [] \<and> files (snd (process_page dm net date se sp body n page w)) = files w)"
proof (cases "re_search dm (text_of page)")
  case None
  then show ?thesis by (simp add: process_page_def)
next
  case (Some m)
  obtain email ident where m: "m = (email, ident)" by (cases m)
  let ?out = "date @ '' - '' @ ident @ ''.pdf''"
  show ?thesis
  proof (cases "save (files w) ?out [page]")
    case (Inl e)
    with Some m show ?thesis by (simp add: process_page_def Let_def)
  next
    case (Inr fs1)
    obtain r w' where r: "send_email net se sp email ?out (Some body) (w\<lparr>files := fs1\<rparr>) = (r, w')"
      by (cases "send_email net se sp email ?out (Some body) (w\<lparr>files := fs1\<rparr>)")
    from send_email_timeline [of net se sp email ?out "Some body" "w\<lparr>files := fs1\<rparr>"]
    obtain rest where rest: "timeline w' = timeline w @ [Dispatch_called ?out] @
         (if path_exists fs1 ''Sent'' then [] else [Made_dir ''Sent'']) @ rest"
      "rest = [] \<or> rest = [Connected]"
      unfolding r by auto
    define new where "new = [Dispatch_called ?out] @
         (if path_exists fs1 ''Sent'' then [] else [Made_dir ''Sent'']) @ rest"
    have t: "timeline (snd (process_page dm net date se sp body n page w)) = timeline w @ new"
      unfolding process_page_dispatch [OF Some [unfolded m] Inr r] new_def
      using rest(1) by (cases r) (simp_all add: move_to_failed_send_folder_only_files)
    have a: "Made_dir ''Failed to Send'' \<notin> set new"
      using rest(2) by (auto simp: new_def)
    have b: "Dispatch_called ?out \<in> set new"
      by (simp add: new_def)
    from t a b show ?thesis by blast
  qed
qed

lemma page_loop_timeline:
  "\<exists>rest. timeline (snd (page_loop dm net date se sp body n pages w)) = timeline w @ rest \<and>
     Made_dir ''Failed to Send'' \<notin> set rest \<and>
     ((\<forall>p. Dispatch_called p \<notin> set rest) \<longrightarrow>
        rest = [] \<and> files (snd (page_loop dm net date se sp body n pages w)) = files w)"
proof (induction pages arbitrary: n w)
  case Nil
  then show ?case by simp
next
  case (Cons page pages)
  obtain r w' where r: "process_page dm net date se sp body n page w = (r, w')"
    by (cases "process_page dm net date se sp body n page w")
  from process_page_timeline [of dm net date se sp body n page w] r
  obtain m1 where m1: "timeline w' = timeline w @ m1" "Made_dir ''Failed to Send'' \<notin> set m1"
    "(\<forall>p. Dispatch_called p \<notin> set m1) \<longrightarrow> m1 = [] \<and> files w' = files w"
    by auto
  show ?case
  proof (cases r)
    case (Some e)
    with r m1 show ?thesis by (simp add: andthen_simps)
  next
    case None
    let ?loop = "page_loop dm net date se sp body (n + 1) pages w'"
    from Cons.IH [of "n + 1" w'] obtain m2 where
      m2: "timeline (snd ?loop) = timeline w' @ m2" "Made_dir ''Failed to Send'' \<notin> set m2"
      "(\<forall>p. Dispatch_called p \<notin> set m2) \<longrightarrow> m2 = [] \<and> files (snd ?loop) = files w'"
      by blast
    have e: "page_loop dm net date se sp body n (page # pages) w = ?loop"
      using r None by (simp add: andthen_simps)
    have "timeline (snd ?loop) = timeline w @ (m1 @ m2)"
      using m1(1) m2(1) by simp
    moreover have "Made_dir ''Failed to Send'' \<notin> set (m1 @ m2)"
      using m1(2) m2(2) by simp
    moreover have "(\<forall>p. Dispatch_called p \<notin> set (m1 @ m2)) \<longrightarrow>
        m1 @ m2 = [] \<and> files (snd ?loop) = files w"
      using m1(3) m2(3) by auto
    ultimately show ?thesis unfolding e by blast
  qed
qed

text \<open>
  Claim C9, as the program has it. \<open>Failed to Send\<close> is created, if absent, as the
  first thing a run does: before the source document is opened, so before any page is
  looked at and before any dispatch, and never later in the run; so it is created
  whether a page fails or not, and it exists after every run. \<open>Sent\<close> is created, if
  absent, as the first thing a dispatch call does, before the message is built and a
  transport session is opened, whatever becomes of the call: it exists after every
  call. A run in which no dispatch is called does not create \<open>Sent\<close> and leaves the
  entry \<open>Sent\<close> as it was.
\<close>

theorem tracked_directories_created_early:
  "(\<exists>rest.
      timeline (snd (process_pay_stubs dm net pdf_path period_end_date sender_email
          sender_password email_body w)) =
        timeline w @
          (if path_exists (files w) ''Failed to Send'' then [] else [Made_dir ''Failed to Send''])
          @ rest \<and>
      (rest = [] \<or> hd rest = Opened_source pdf_path) \<and>
      Made_dir ''Failed to Send'' \<notin> set rest \<and>
      ((\<forall>p. Dispatch_called p \<notin> set rest) \<longrightarrow>
         Made_dir ''Sent'' \<notin> set rest \<and>
         fmlookup (files (snd (process_pay_stubs dm net pdf_path period_end_date sender_email
           sender_password email_body w))) ''Sent'' = fmlookup (files w) ''Sent'')) \<and>
   path_exists (files (snd (process_pay_stubs dm net pdf_path period_end_date sender_email
      sender_password email_body w))) ''Failed to Send'' \<and>
   (\<exists>rest.
      timeline (snd (send_email net sender_email sender_password receiver_email
          pay_stub_path body w)) =
        timeline w @ [Dispatch_called pay_stub_path] @
          (if path_exists (files w) ''Sent'' then [] else [Made_dir ''Sent'']) @ rest \<and>
      (rest = [] \<or> rest = [Connected])) \<and>
   path_exists (files (snd (send_email net sender_email sender_password receiver_email
      pay_stub_path body w))) ''Sent''"
proof -
  define made where "made =
    (if path_exists (files w) ''Failed to Send'' then [] else [Made_dir ''Failed to Send''])"
  define w1 where "w1 = (if path_exists (files w) ''Failed to Send'' then w
             else w\<lparr>files := fmupd ''Failed to Send'' Dir (files w),
                    timeline := timeline w @ [Made_dir ''Failed to Send'']\<rparr>)"
  have e: "ensure_dir ''Failed to Send'' w = (None, w1)"
    unfolding w1_def by (rule ensure_dir_eq) simp
  have k1: "path_exists (files w1) ''Failed to Send''"
    by (simp add: w1_def path_exists_def)
  have t1: "timeline w1 = timeline w @ made"
    by (simp add: w1_def made_def)
  have s1: "fmlookup (files w1) ''Sent'' = fmlookup (files w) ''Sent''"
    by (simp add: w1_def)
  let ?run = "process_pay_stubs dm net pdf_path period_end_date sender_email
      sender_password email_body w"
  have a: "(\<exists>rest. timeline (snd ?run) = timeline w @ made @ rest \<and>
      (rest = [] \<or> hd rest = Opened_source pdf_path) \<and>
      Made_dir ''Failed to Send'' \<notin> set rest \<and>
      ((\<forall>p. Dispatch_called p \<notin> set rest) \<longrightarrow>
         Made_dir ''Sent'' \<notin> set rest \<and>
         fmlookup (files (snd ?run)) ''Sent'' = fmlookup (files w) ''Sent'')) \<and>
      path_exists (files (snd ?run)) ''Failed to Send''"
  proof (cases "fitz_open (files w1) pdf_path")
    case (Inl err)
    then have "?run = (Some err, w1)"
      unfolding process_pay_stubs_def e andthen_simps by simp
    with k1 s1 t1 show ?thesis by simp
  next
    case (Inr doc)
    define w2 where "w2 = w1\<lparr>handles := handles w1 @ [Doc_open pdf_path],
                 timeline := timeline w1 @ [Opened_source pdf_path]\<rparr>"
    let ?loop = "page_loop dm net period_end_date sender_email sender_password email_body 0 doc w2"
    have p: "?run = andthen ?loop (\<lambda>w. (None, w\<lparr>handles := handles w @ [Doc_close pdf_path]\<rparr>))"
      unfolding process_pay_stubs_def e andthen_simps Inr w2_def by simp
    obtain r w' where r: "?loop = (r, w')" by (cases ?loop)
    have "path_exists (files w2) ''Failed to Send''" using k1 by (simp add: w2_def)
    from page_loop_keeps [OF this, of dm net period_end_date sender_email sender_password
        email_body 0 doc] r
    have k: "path_exists (files w') ''Failed to Send''" by simp
    from page_loop_timeline [of dm net period_end_date sender_email sender_password
        email_body 0 doc w2] r
    obtain more where m: "timeline w' = timeline w2 @ more"
      "Made_dir ''Failed to Send'' \<notin> set more"
      "(\<forall>p. Dispatch_called p \<notin> set more) \<longrightarrow> more = [] \<and> files w' = files w2"
      by auto
    have f: "files (snd ?run) = files w'" "timeline (snd ?run) = timeline w'"
      unfolding p r by (cases r; simp add: andthen_simps)+
    have t2: "timeline w2 = timeline w @ made @ [Opened_source pdf_path]"
      by (simp add: w2_def t1)
    have f2: "fmlookup (files w2) ''Sent'' = fmlookup (files w) ''Sent''"
      by (simp add: w2_def s1)
    have c1: "timeline (snd ?run) = timeline w @ made @ (Opened_source pdf_path # more)"
      unfolding f m(1) t2 by simp
    have c2: "Opened_source pdf_path # more = [] \<or>
        hd (Opened_source pdf_path # more) = Opened_source pdf_path"
      by simp
    have c3: "Made_dir ''Failed to Send'' \<notin> set (Opened_source pdf_path # more)"
      using m(2) by simp
    have c4: "(\<forall>p. Dispatch_called p \<notin> set (Opened_source pdf_path # more)) \<longrightarrow>
         Made_dir ''Sent'' \<notin> set (Opened_source pdf_path # more) \<and>
         fmlookup (files (snd ?run)) ''Sent'' = fmlookup (files w) ''Sent''"
      unfolding f using m(3) f2 by auto
    have c5: "path_exists (files (snd ?run)) ''Failed to Send''"
      unfolding f using k .
    from c1 c2 c3 c4 have "\<exists>rest. timeline (snd ?run) = timeline w @ made @ rest \<and>
      (rest = [] \<or> hd rest = Opened_source pdf_path) \<and>
      Made_dir ''Failed to Send'' \<notin> set rest \<and>
      ((\<forall>p. Dispatch_called p \<notin> set rest) \<longrightarrow>
         Made_dir ''Sent'' \<notin> set rest \<and>
         fmlookup (files (snd ?run)) ''Sent'' = fmlookup (files w) ''Sent'')"
      by (intro exI [of _ "Opened_source pdf_path # more"] conjI)
    from this c5 show ?thesis by (rule conjI)
  qed
  have b: "path_exists (files (snd (send_email net sender_email sender_password receiver_email
      pay_stub_path body w))) ''Sent''"
    by (rule send_email_keeps) simp_all
  note c = send_email_timeline [of net sender_email sender_password receiver_email
      pay_stub_path body w]
  from a [unfolded made_def] b c show ?thesis by (intro conjI) blast+
qed

theorem tracked_directories_created_early_witness:
  "timeline (snd (process_pay_stubs (map Lit ''acme'') (\<lambda>k. None) ''stubs.pdf'' ''01-15-2024''
      ''hr@acme.com'' ''secret'' [] no_stub)) =
     [Made_dir ''Failed to Send'', Opened_source ''stubs.pdf''] \<and>
   (\<forall>p. Dispatch_called p \<notin> set [Opened_source ''stubs.pdf'']) \<and>
   fmlookup (files (snd (process_pay_stubs (map Lit ''acme'') (\<lambda>k. None) ''stubs.pdf''
      ''01-15-2024'' ''hr@acme.com'' ''secret'' [] no_stub))) ''Sent'' = None \<and>
   path_exists (files (snd (process_pay_stubs (map Lit ''acme'') (\<lambda>k. None) ''stubs.pdf''
      ''01-15-2024'' ''hr@acme.com'' ''secret'' [] no_stub))) ''Failed to Send''"
proof -
  let ?run = "process_pay_stubs (map Lit ''acme'') (\<lambda>k. None) ''stubs.pdf'' ''01-15-2024''
      ''hr@acme.com'' ''secret'' [] no_stub"
  have t: "timeline (snd ?run) = [Made_dir ''Failed to Send'', Opened_source ''stubs.pdf'']"
    by (simp add: no_stub_def run_defs regex_defs path_defs)
  have n: "fmlookup (files no_stub) ''Sent'' = None" "timeline no_stub = []"
    "\<not> path_exists (files no_stub) ''Failed to Send''"
    by (simp_all add: no_stub_def world_of_def path_exists_def)
  from tracked_directories_created_early [of "map Lit ''acme''" "\<lambda>k. None" "''stubs.pdf''"
      "''01-15-2024''" "''hr@acme.com''" "''secret''" "[]" no_stub]
  obtain rest where r:
    "timeline (snd ?run) = timeline no_stub @
       (if path_exists (files no_stub) ''Failed to Send'' then [] else [Made_dir ''Failed to Send''])
       @ rest"
    "(\<forall>p. Dispatch_called p \<notin> set rest) \<longrightarrow>
       fmlookup (files (snd ?run)) ''Sent'' = fmlookup (files no_stub) ''Sent''"
    "path_exists (files (snd ?run)) ''Failed to Send''"
    by blast
  from r(1) n(3) have "rest = [Opened_source ''stubs.pdf'']"
    unfolding t n(2) by simp
  with r(2) have "fmlookup (files (snd ?run)) ''Sent'' = None"
    unfolding n by simp
  with t r(3) show ?thesis by simp
qed

text \<open>
  The claim C9 as stated fails: a run in which both pages are delivered creates
  \<open>Failed to Send\<close>, and creates it before the first page is dispatched.
\<close>

theorem failed_directory_created_without_failure:
  "fmlookup (files two_stubs) ''Failed to Send'' = None \<and>
   fst (process_pay_stubs (map Lit ''acme'') (\<lambda>k. None) ''stubs.pdf'' ''01-15-2024''
      ''hr@acme.com'' ''secret'' [] two_stubs) = None \<and>
   printed (snd (process_pay_stubs (map Lit ''acme'') (\<lambda>k. None) ''stubs.pdf'' ''01-15-2024''
      ''hr@acme.com'' ''secret'' [] two_stubs)) =
     [Sent_pay_stub_to ''a@acme.com'', Sent_pay_stub_to ''b@acme.com''] \<and>
   fmlookup (files (snd (process_pay_stubs (map Lit ''acme'') (\<lambda>k. None) ''stubs.pdf''
      ''01-15-2024'' ''hr@acme.com'' ''secret'' [] two_stubs))) ''Failed to Send'' = Some Dir \<and>
   timeline (snd (process_pay_stubs (map Lit ''acme'') (\<lambda>k. None) ''stubs.pdf'' ''01-15-2024''
      ''hr@acme.com'' ''secret'' [] two_stubs)) =
     [Made_dir ''Failed to Send'', Opened_source ''stubs.pdf'',
      Dispatch_called ''01-15-2024 - a.pdf'', Made_dir ''Sent'', Connected,
      Dispatch_called ''01-15-2024 - b.pdf'', Connected]"
  by (simp add: two_stubs_def run_defs regex_defs path_defs)


section \<open>A page whose dispatch or filing fails\<close>




lemma smtp_send_fails:
  "net (length (sessions w)) = Some f \<Longrightarrow>
     smtp_send net u pw msg w =
       (Some (SMTPError f),
        w\<lparr>sessions := sessions w @
          [case f of
             ConnectFailed \<Rightarrow> [SMTP_SSL ''smtp.gmail.com'' 465]
           | LoginFailed \<Rightarrow> [SMTP_SSL ''smtp.gmail.com'' 465, Login u pw, Quit]
           | SendFailed \<Rightarrow>
               [SMTP_SSL ''smtp.gmail.com'' 465, Login u pw, Send_message msg, Quit]],
          timeline := timeline w @ [Connected]\<rparr>)"
  by (cases f) (simp_all add: smtp_send_def)



lemma move_to_failed_send_folder_done:
  assumes "CHR ''/'' \<notin> set out" "fmlookup (files w) out = Some (File data)"
    "fmlookup (files w) ''Failed to Send'' = Some Dir"
    "fmlookup (files w) (''Failed to Send/'' @ out) \<noteq> Some Dir"
  shows "move_to_failed_send_folder out w =
     (None, w\<lparr>files := fmupd (''Failed to Send/'' @ out) (File data) (fmdrop out (files w))\<rparr>)"
proof -
  have j: "join ''Failed to Send'' out = ''Failed to Send/'' @ out"
    using join_name [OF assms(1), of "''Failed to Send''"] by simp
  have "rename (files w) out (''Failed to Send'' @ ''/'' @ out) =
      Inr (fmupd (''Failed to Send'' @ ''/'' @ out) (File data) (fmdrop out (files w)))"
    using assms(4) by (intro rename_into_dir [OF assms(2) assms(3) _ _ assms(1)]) simp_all
  then show ?thesis
    unfolding move_to_failed_send_folder_def j by simp
qed


lemma move_to_failed_send_folder_raises:
  assumes "CHR ''/'' \<notin> set out" "fmlookup (files w) out = Some (File data)"
    "\<not> (fmlookup (files w) ''Failed to Send'' = Some Dir \<and>
        fmlookup (files w) (''Failed to Send/'' @ out) \<noteq> Some Dir)"
  shows "\<exists>e. move_to_failed_send_folder out w = (Some e, w)"
proof -
  have j: "join ''Failed to Send'' out = ''Failed to Send/'' @ out"
    using join_name [OF assms(1), of "''Failed to Send''"] by simp
  have "dirname (''Failed to Send'' @ ''/'' @ out) = ''Failed to Send''"
    using assms(1) by (intro dirname_in_dir) simp_all
  then have dn: "dirname (''Failed to Send/'' @ out) = ''Failed to Send''" by simp
  have "\<exists>e. rename (files w) out (''Failed to Send/'' @ out) = Inl e"
    unfolding rename_def dn using assms(2,3) by (auto simp: isdir_def)
  then show ?thesis
    unfolding move_to_failed_send_folder_def j by auto
qed

lemma move_to_sent_folder_raises:
  "move_to_sent_folder p w = (Some e, w') \<Longrightarrow> w' = w"
  by (auto simp: move_to_sent_folder_def Let_def split: prod.splits option.splits sum.splits)

text \<open>A dispatch that raises has changed nothing in the file system, but for the
  directory \<open>Sent\<close> it has created if it was not there.\<close>

lemma send_email_raises:
  assumes "send_email net se sp re p body w = (Some e, w')"
  shows "files w' =
     (if path_exists (files w) ''Sent'' then files w else fmupd ''Sent'' Dir (files w))"
proof -
  define w1 where "w1 = (if path_exists (files w) ''Sent''
                then w\<lparr>timeline := timeline w @ [Dispatch_called p]\<rparr>
                else w\<lparr>files := fmupd ''Sent'' Dir (files w),
                       timeline := timeline w @ [Dispatch_called p, Made_dir ''Sent'']\<rparr>)"
  define fs where "fs =
     (if path_exists (files w) ''Sent'' then files w else fmupd ''Sent'' Dir (files w))"
  have f1: "files w1 = fs" by (simp add: w1_def fs_def)
  have sq: "files w' = fs"
    if "andthen (smtp_send net se sp msg w1) (move_to_sent_folder p) = (Some e, w')" for msg
  proof -
    obtain r w2 where r: "smtp_send net se sp msg w1 = (r, w2)"
      by (cases "smtp_send net se sp msg w1")
    with smtp_send_frame(1) [of net se sp msg w1] have f2: "files w2 = fs"
      by (simp add: f1)
    show ?thesis
    proof (cases r)
      case None
      with that r have "move_to_sent_folder p w2 = (Some e, w')"
        by (simp add: andthen_simps)
      then have "w' = w2" by (rule move_to_sent_folder_raises)
      with f2 show ?thesis by simp
    next
      case (Some x)
      with that r have "w' = w2" by (simp add: andthen_simps)
      with f2 show ?thesis by simp
    qed
  qed
  from assms have "files w' = fs"
    unfolding send_email_eq Let_def w1_def [symmetric]
    using f1 sq by (auto split: option.splits sum.splits)
  then show ?thesis unfolding fs_def .
qed

text \<open>
  Claim C3 (amended). A page is dispatched (its text names a recipient, the period end
  date has no separator, and its artifact has been saved) and the dispatch raises, for
  whatever reason: the \<open>email\<close> library refuses the message, the transport session
  fails, or the move into \<open>Sent\<close> fails. The handler prints the failure and moves the
  artifact with one rename into \<open>Failed to Send\<close>.

  When \<open>Failed to Send\<close> is a directory and holds no directory under the artifact's
  name, the rename succeeds: right after the page the artifact is in
  \<open>Failed to Send\<close> under its name, in the place of whatever file had that name
  before; it is no longer in the working directory; every path under \<open>Sent/\<close> is as
  it was; the body of the loop raises nothing and the loop goes on with the next page.

  Otherwise the rename raises inside the handler: the body of the loop raises, the
  artifact stays in the working directory, nothing under \<open>Failed to Send/\<close> or
  \<open>Sent/\<close> has changed, and the loop ends there with that exception, no later page
  being processed.
\<close>

theorem failed_dispatch_filed_as_failed:
  assumes m: "re_search dm (text_of page) = Some (email, email_identifier)"
    and d: "CHR ''/'' \<notin> set period_end_date"
    and sv: "save (files w) (period_end_date @ '' - '' @ email_identifier @ ''.pdf'') [page] =
        Inr fs1"
    and dispatch: "fst (send_email net sender_email sender_password email
        (period_end_date @ '' - '' @ email_identifier @ ''.pdf'') (Some email_body)
        (w\<lparr>files := fs1\<rparr>)) = Some e"
  shows "if fmlookup (files w) ''Failed to Send'' = Some Dir \<and>
        fmlookup (files w)
          (''Failed to Send/'' @ period_end_date @ '' - '' @ email_identifier @ ''.pdf'') \<noteq>
          Some Dir
     then
       (\<exists>w'.
          process_page dm net period_end_date sender_email sender_password email_body
            page_num page w = (None, w') \<and>
          fmlookup (files w')
            (''Failed to Send/'' @ period_end_date @ '' - '' @ email_identifier @ ''.pdf'') =
            Some (File [page]) \<and>
          fmlookup (files w') (period_end_date @ '' - '' @ email_identifier @ ''.pdf'') = None \<and>
          (\<forall>q. take 5 q = ''Sent/'' \<longrightarrow> fmlookup (files w') q = fmlookup (files w) q) \<and>
          printed w' = printed w @ [Failed_to_send email e] \<and>
          page_loop dm net period_end_date sender_email sender_password email_body page_num
              (page # pages) w =
            page_loop dm net period_end_date sender_email sender_password email_body
              (page_num + 1) pages w')
     else
       (\<exists>e' w'.
          process_page dm net period_end_date sender_email sender_password email_body
            page_num page w = (Some e', w') \<and>
          fmlookup (files w') (period_end_date @ '' - '' @ email_identifier @ ''.pdf'') =
            Some (File [page]) \<and>
          (\<forall>q. take 15 q = ''Failed to Send/'' \<or> take 5 q = ''Sent/'' \<longrightarrow>
             fmlookup (files w') q = fmlookup (files w) q) \<and>
          printed w' = printed w @ [Failed_to_send email e] \<and>
          page_loop dm net period_end_date sender_email sender_password email_body page_num
              (page # pages) w = (Some e', w'))"
proof -
  let ?out = "period_end_date @ '' - '' @ email_identifier @ ''.pdf''"
  let ?tgt = "''Failed to Send/'' @ ?out"
  have ns: "CHR ''/'' \<notin> set ?out" using output_no_slash [OF m d] .
  have os: "?out \<noteq> ''Sent''" "?out \<noteq> ''Failed to Send''"
    using output_neq [of period_end_date email_identifier] by simp_all
  have "CHR ''/'' \<in> set ?tgt" by simp
  with ns have ot: "?tgt \<noteq> ?out" by force
  have fs1: "fs1 = fmupd ?out (File [page]) (files w)"
    using sv by (auto simp: save_def split: if_splits)
  obtain r w1 where se0: "send_email net sender_email sender_password email ?out
      (Some email_body) (w\<lparr>files := fs1\<rparr>) = (r, w1)"
    by (cases "send_email net sender_email sender_password email ?out
      (Some email_body) (w\<lparr>files := fs1\<rparr>)")
  with dispatch have "r = Some e" by simp
  with se0 have se: "send_email net sender_email sender_password email ?out
      (Some email_body) (w\<lparr>files := fs1\<rparr>) = (Some e, w1)"
    by simp
  have p1: "printed w1 = printed w"
    using send_email_frame(1) [of net sender_email sender_password email ?out
        "Some email_body" "w\<lparr>files := fs1\<rparr>"]
    unfolding se by simp
  have "files w1 = (if path_exists fs1 ''Sent'' then fs1 else fmupd ''Sent'' Dir fs1)"
    using send_email_raises [OF se] by simp
  then have f1: "\<And>q. q \<noteq> ''Sent'' \<Longrightarrow> fmlookup (files w1) q = fmlookup fs1 q"
    by simp
  define w4 where "w4 = w1\<lparr>printed := printed w1 @ [Failed_to_send email e]\<rparr>"
  have w4: "printed w4 = printed w @ [Failed_to_send email e]"
    "\<And>q. q \<noteq> ''Sent'' \<Longrightarrow> q \<noteq> ?out \<Longrightarrow> fmlookup (files w4) q = fmlookup (files w) q"
    "fmlookup (files w4) ?out = Some (File [page])"
    using os(1) by (simp_all add: w4_def p1 f1 fs1)
  have pp: "process_page dm net period_end_date sender_email sender_password email_body
      page_num page w = move_to_failed_send_folder ?out w4"
    unfolding process_page_dispatch [OF m sv se] w4_def by simp
  have d4: "fmlookup (files w4) ''Failed to Send'' = fmlookup (files w) ''Failed to Send''"
    using os(2) by (intro w4(2)) simp_all
  have t4: "fmlookup (files w4) ?tgt = fmlookup (files w) ?tgt"
    using ot by (intro w4(2)) simp_all
  have sent: "q \<noteq> ''Sent'' \<and> q \<noteq> ?out \<and> q \<noteq> ?tgt" if "take 5 q = ''Sent/''" for q
  proof -
    have "CHR ''/'' \<in> set (take 5 q)" unfolding that by simp
    then have "CHR ''/'' \<in> set q" by (rule in_set_takeD)
    with ns have "q \<noteq> ?out" by blast
    moreover have "q \<noteq> ?tgt" "q \<noteq> ''Sent''" using that by auto
    ultimately show ?thesis by blast
  qed
  have failed: "q \<noteq> ''Sent'' \<and> q \<noteq> ?out" if "take 15 q = ''Failed to Send/''" for q
  proof -
    have "CHR ''/'' \<in> set (take 15 q)" unfolding that by simp
    then have "CHR ''/'' \<in> set q" by (rule in_set_takeD)
    with ns have "q \<noteq> ?out" by blast
    moreover have "q \<noteq> ''Sent''" using that by auto
    ultimately show ?thesis by blast
  qed
  show ?thesis
  proof (cases "fmlookup (files w) ''Failed to Send'' = Some Dir \<and>
        fmlookup (files w) ?tgt \<noteq> Some Dir")
    case True
    then have d5: "fmlookup (files w4) ''Failed to Send'' = Some Dir"
      and t5: "fmlookup (files w4) ?tgt \<noteq> Some Dir"
      unfolding d4 t4 by simp_all
    define w5 where "w5 = w4\<lparr>files := fmupd ?tgt (File [page]) (fmdrop ?out (files w4))\<rparr>"
    have mv: "move_to_failed_send_folder ?out w4 = (None, w5)"
      unfolding w5_def using move_to_failed_send_folder_done [OF ns w4(3) d5 t5] .
    have r: "process_page dm net period_end_date sender_email sender_password email_body
        page_num page w = (None, w5)"
      unfolding pp mv ..
    have a: "fmlookup (files w5) ?tgt = Some (File [page])" by (simp add: w5_def)
    have b: "fmlookup (files w5) ?out = None" using ot by (simp add: w5_def)
    have c: "\<forall>q. take 5 q = ''Sent/'' \<longrightarrow> fmlookup (files w5) q = fmlookup (files w) q"
    proof (intro allI impI)
      fix q :: string
      assume "take 5 q = ''Sent/''"
      from sent [OF this] have "q \<noteq> ''Sent''" "q \<noteq> ?out" "q \<noteq> ?tgt" by blast+
      then have "fmlookup (files w5) q = fmlookup (files w4) q"
        unfolding w5_def by auto
      also have "\<dots> = fmlookup (files w) q"
        using \<open>q \<noteq> ''Sent''\<close> \<open>q \<noteq> ?out\<close> by (rule w4(2))
      finally show "fmlookup (files w5) q = fmlookup (files w) q" .
    qed
    have e: "printed w5 = printed w @ [Failed_to_send email e]"
      by (simp add: w5_def w4(1))
    have lp: "page_loop dm net period_end_date sender_email sender_password email_body page_num
           (page # pages) w =
         page_loop dm net period_end_date sender_email sender_password email_body (page_num + 1)
           pages w5"
      by (simp only: page_loop.simps r andthen_simps)
    from r a b c e lp have "\<exists>w'.
          process_page dm net period_end_date sender_email sender_password email_body
            page_num page w = (None, w') \<and>
          fmlookup (files w') ?tgt = Some (File [page]) \<and>
          fmlookup (files w') ?out = None \<and>
          (\<forall>q. take 5 q = ''Sent/'' \<longrightarrow> fmlookup (files w') q = fmlookup (files w) q) \<and>
          printed w' = printed w @ [Failed_to_send email e] \<and>
          page_loop dm net period_end_date sender_email sender_password email_body page_num
              (page # pages) w =
            page_loop dm net period_end_date sender_email sender_password email_body
              (page_num + 1) pages w'"
      by blast
    then show ?thesis unfolding if_P [OF True] .
  next
    case False
    then have "\<not> (fmlookup (files w4) ''Failed to Send'' = Some Dir \<and>
        fmlookup (files w4) ?tgt \<noteq> Some Dir)"
      unfolding d4 t4 .
    from move_to_failed_send_folder_raises [OF ns w4(3) this]
    obtain e' where mv: "move_to_failed_send_folder ?out w4 = (Some e', w4)" ..
    have r: "process_page dm net period_end_date sender_email sender_password email_body
        page_num page w = (Some e', w4)"
      unfolding pp mv ..
    have c: "\<forall>q. take 15 q = ''Failed to Send/'' \<or> take 5 q = ''Sent/'' \<longrightarrow>
        fmlookup (files w4) q = fmlookup (files w) q"
    proof (intro allI impI)
      fix q :: string
      assume "take 15 q = ''Failed to Send/'' \<or> take 5 q = ''Sent/''"
      with sent [of q] failed [of q] have "q \<noteq> ''Sent''" "q \<noteq> ?out" by blast+
      then show "fmlookup (files w4) q = fmlookup (files w) q" by (rule w4(2))
    qed
    have lp: "page_loop dm net period_end_date sender_email sender_password email_body page_num
           (page # pages) w = (Some e', w4)"
      by (simp only: page_loop.simps r andthen_simps)
    from r w4(3) c w4(1) lp have "\<exists>e' w'.
          process_page dm net period_end_date sender_email sender_password email_body
            page_num page w = (Some e', w') \<and>
          fmlookup (files w') ?out = Some (File [page]) \<and>
          (\<forall>q. take 15 q = ''Failed to Send/'' \<or> take 5 q = ''Sent/'' \<longrightarrow>
             fmlookup (files w') q = fmlookup (files w) q) \<and>
          printed w' = printed w @ [Failed_to_send email e] \<and>
          page_loop dm net period_end_date sender_email sender_password email_body page_num
              (page # pages) w = (Some e', w')"
      by blast
    then show ?thesis unfolding if_not_P [OF False] .
  qed
qed

theorem failed_dispatch_filed_as_failed_witness:
  "re_search (map Lit ''acme'') (text_of (Page ''Pay stub for b@acme.com'' (2::nat))) =
      Some (''b@acme.com'', ''b'') \<and>
   CHR ''/'' \<notin> set ''01-15-2024'' \<and>
   save (files ready) (''01-15-2024'' @ '' - '' @ ''b'' @ ''.pdf'')
       [Page ''Pay stub for b@acme.com'' 2] =
     Inr (fmupd ''01-15-2024 - b.pdf'' (File [Page ''Pay stub for b@acme.com'' 2]) (files ready)) \<and>
   fst (send_email (\<lambda>k. Some SendFailed) ''hr@acme.com'' ''secret'' ''b@acme.com''
       (''01-15-2024'' @ '' - '' @ ''b'' @ ''.pdf'') (Some [])
       (ready\<lparr>files := fmupd ''01-15-2024 - b.pdf'' (File [Page ''Pay stub for b@acme.com'' 2])
          (files ready)\<rparr>)) = Some (SMTPError SendFailed) \<and>
   (\<exists>w'. process_page (map Lit ''acme'') (\<lambda>k. Some SendFailed) ''01-15-2024'' ''hr@acme.com''
        ''secret'' [] 1 (Page ''Pay stub for b@acme.com'' 2) ready = (None, w') \<and>
     fmlookup (files w') ''Failed to Send/01-15-2024 - b.pdf'' =
       Some (File [Page ''Pay stub for b@acme.com'' 2]) \<and>
     fmlookup (files w') ''01-15-2024 - b.pdf'' = None \<and>
     printed w' = [Failed_to_send ''b@acme.com'' (SMTPError SendFailed)])"
proof -
  have h1: "re_search (map Lit ''acme'') (text_of (Page ''Pay stub for b@acme.com'' (2::nat))) =
      Some (''b@acme.com'', ''b'')"
    by (simp add: regex_defs)
  have h2: "CHR ''/'' \<notin> set ''01-15-2024''" by simp
  have h3: "save (files ready) (''01-15-2024'' @ '' - '' @ ''b'' @ ''.pdf'')
       [Page ''Pay stub for b@acme.com'' 2] =
     Inr (fmupd ''01-15-2024 - b.pdf'' (File [Page ''Pay stub for b@acme.com'' 2]) (files ready))"
    by (simp add: ready_def run_defs path_defs)
  have h4: "fst (send_email (\<lambda>k. Some SendFailed) ''hr@acme.com'' ''secret'' ''b@acme.com''
       (''01-15-2024'' @ '' - '' @ ''b'' @ ''.pdf'') (Some [])
       (ready\<lparr>files := fmupd ''01-15-2024 - b.pdf'' (File [Page ''Pay stub for b@acme.com'' 2])
          (files ready)\<rparr>)) = Some (SMTPError SendFailed)"
    by (simp add: ready_def run_defs path_defs)
  have c: "fmlookup (files ready) ''Failed to Send'' = Some Dir \<and>
      fmlookup (files ready) (''Failed to Send/'' @ ''01-15-2024'' @ '' - '' @ ''b'' @ ''.pdf'') \<noteq>
        Some Dir"
    by (simp add: ready_def world_of_def)
  have p: "printed ready = []" by (simp add: ready_def world_of_def)
  from failed_dispatch_filed_as_failed [where net = "\<lambda>k. Some SendFailed", OF h1 h2 h3 h4,
      where page_num = 1 and pages = "[]"]
  obtain w' where "process_page (map Lit ''acme'') (\<lambda>k. Some SendFailed) ''01-15-2024''
        ''hr@acme.com'' ''secret'' [] 1 (Page ''Pay stub for b@acme.com'' 2) ready = (None, w')"
     "fmlookup (files w') ''Failed to Send/01-15-2024 - b.pdf'' =
       Some (File [Page ''Pay stub for b@acme.com'' 2])"
     "fmlookup (files w') ''01-15-2024 - b.pdf'' = None"
     "printed w' = [Failed_to_send ''b@acme.com'' (SMTPError SendFailed)]"
    unfolding if_P [OF c] p by auto
  with h1 h2 h3 h4 show ?thesis by blast
qed

text \<open>
  The claim C3 as stated fails twice. With a regular file named \<open>Failed to Send\<close> in
  the working directory, the first page's dispatch fails, the move raises
  \<open>NotADirectoryError\<close> inside the handler, and the run ends there: the artifact is
  left in the working directory and the second page is never reached. And when the
  two pages of a document name the same recipient and both dispatches fail, the run
  ends normally with one file in \<open>Failed to Send\<close>, the second page's artifact: the
  first page's artifact has been replaced by it.
\<close>

theorem failed_dispatch_not_always_filed:
  "fst (process_pay_stubs (map Lit ''acme'') (\<lambda>k. Some SendFailed) ''stubs.pdf'' ''01-15-2024''
      ''hr@acme.com'' ''secret'' [] failed_is_file) = Some NotADirectoryError \<and>
   fmlookup (files (snd (process_pay_stubs (map Lit ''acme'') (\<lambda>k. Some SendFailed) ''stubs.pdf''
      ''01-15-2024'' ''hr@acme.com'' ''secret'' [] failed_is_file))) ''01-15-2024 - a.pdf'' =
     Some (File [Page ''Pay stub for a@acme.com'' 1]) \<and>
   printed (snd (process_pay_stubs (map Lit ''acme'') (\<lambda>k. Some SendFailed) ''stubs.pdf''
      ''01-15-2024'' ''hr@acme.com'' ''secret'' [] failed_is_file)) =
     [Failed_to_send ''a@acme.com'' (SMTPError SendFailed)] \<and>
   fst (process_pay_stubs (map Lit ''acme'') (\<lambda>k. Some SendFailed) ''stubs.pdf'' ''01-15-2024''
      ''hr@acme.com'' ''secret'' [] same_recipient) = None \<and>
   printed (snd (process_pay_stubs (map Lit ''acme'') (\<lambda>k. Some SendFailed) ''stubs.pdf''
      ''01-15-2024'' ''hr@acme.com'' ''secret'' [] same_recipient)) =
     [Failed_to_send ''a@acme.com'' (SMTPError SendFailed),
      Failed_to_send ''a@acme.com'' (SMTPError SendFailed)] \<and>
   fmlookup (files (snd (process_pay_stubs (map Lit ''acme'') (\<lambda>k. Some SendFailed) ''stubs.pdf''
      ''01-15-2024'' ''hr@acme.com'' ''secret'' [] same_recipient)))
      ''Failed to Send/01-15-2024 - a.pdf'' = Some (File [Page ''Bonus for a@acme.com'' 2]) \<and>
   fmdom' (files (snd (process_pay_stubs (map Lit ''acme'') (\<lambda>k. Some SendFailed) ''stubs.pdf''
      ''01-15-2024'' ''hr@acme.com'' ''secret'' [] same_recipient))) =
     {''stubs.pdf'', ''Failed to Send'', ''Sent'', ''Failed to Send/01-15-2024 - a.pdf''}"
  by (auto simp: failed_is_file_def same_recipient_def run_defs regex_defs path_defs)


text \<open>A filing failure presupposes a message that was built. With a sender the
  \<open>email\<close> library refuses, the page of the world above never reaches the
  transport: no session is opened, the failure printed is the library's, and the
  artifact is moved to \<open>Failed to Send\<close>.\<close>

lemma refused_message_is_no_filing_failure:
  "sessions (snd (process_page (map Lit ''acme'') (\<lambda>k. None) ''01-15-2024''
      (''hr@acme.com'' @ [CHR 0x0A] @ ''Bcc: x@acme.com'') ''secret'' [] 0
      (Page ''Pay stub for a@acme.com'' 1)
      (sent_is_file\<lparr>header_fault := header_fault strict_headers\<rparr>))) = [] \<and>
   printed (snd (process_page (map Lit ''acme'') (\<lambda>k. None) ''01-15-2024''
      (''hr@acme.com'' @ [CHR 0x0A] @ ''Bcc: x@acme.com'') ''secret'' [] 0
      (Page ''Pay stub for a@acme.com'' 1)
      (sent_is_file\<lparr>header_fault := header_fault strict_headers\<rparr>))) =
     [Failed_to_send ''a@acme.com'' ValueError] \<and>
   fmlookup (files (snd (process_page (map Lit ''acme'') (\<lambda>k. None) ''01-15-2024''
      (''hr@acme.com'' @ [CHR 0x0A] @ ''Bcc: x@acme.com'') ''secret'' [] 0
      (Page ''Pay stub for a@acme.com'' 1)
      (sent_is_file\<lparr>header_fault := header_fault strict_headers\<rparr>))))
      ''Failed to Send/01-15-2024 - a.pdf'' = Some (File [Page ''Pay stub for a@acme.com'' 1])"
  by (simp add: sent_is_file_def strict_headers_def run_defs regex_defs path_defs)




end
